theory Spec2Isabelle
  imports Complex_Main "HOL-Library.Word" "HOL-Library.List_Lexorder"
begin

unbundle bit_operations_syntax

section \<open>Data model\<close>

text \<open>
  The two headers \<^verbatim>\<open>multi_vector_gps.h\<close> and \<^verbatim>\<open>multi_vector_deg.h\<close> declare a
  plain neighbour and a neighbour that additionally carries a pruning bitmap.  Distances
  are \<^verbatim>\<open>float\<close> in the source and are only ever compared (\<^verbatim>\<open><\<close>, \<^verbatim>\<open>>\<close>,
  \<^verbatim>\<open>!=\<close>) by the layered pool; they are modelled by an arbitrary linear order
  \<open>'a\<close>, which is what the comparisons of \<^verbatim>\<open>float\<close> are on values that are not NaN.
  Ids are \<^verbatim>\<open>unsigned\<close> (32 bit), the layer is \<^verbatim>\<open>int\<close>.  A name cannot end
  in an underscore here, so the trailing underscore of a member of the source is written
  as a prime: \<^verbatim>\<open>id_\<close> is \<open>id'\<close>, \<^verbatim>\<open>pool_\<close> is \<open>pool'\<close>.
\<close>

datatype error = InvalidArgument | OutOfRange

record 'a MultiVectorNeighbor =
  id' :: "32 word"
  distances' :: "'a list"
  flag :: bool
  layer' :: int

text \<open>
  \<^verbatim>\<open>MultiVectorDEGNeighbor\<close> has the same four fields and two more: the bitmap
  (a vector of 64-bit words) and the number of weight combinations (\<^verbatim>\<open>size_t\<close>).
\<close>

record 'a MultiVectorDEGNeighbor = "'a MultiVectorNeighbor" +
  pruning_bitmap' :: "64 word list"
  num_weight_combinations' :: nat

section \<open>Skyline extraction\<close>

text \<open>
  The inner loop over the dimensions of \<^verbatim>\<open>findSkyline\<close>: it starts with
  \<^verbatim>\<open>dominates = true, strictly_less = false\<close>, leaves at the first dimension where
  \<^verbatim>\<open>other\<close> is larger, and returns both flags.  The list argument holds the
  dimensions still to visit.
\<close>

fun dim_loop :: "'a::linorder list \<Rightarrow> 'a list \<Rightarrow> nat list \<Rightarrow> bool \<Rightarrow> bool \<times> bool" where
  "dim_loop other point [] strictly_less = (True, strictly_less)"
| "dim_loop other point (dim_idx # dims) strictly_less =
     (if other ! dim_idx > point ! dim_idx then (False, strictly_less)
      else dim_loop other point dims
             (if other ! dim_idx < point ! dim_idx then True else strictly_less))"

text \<open>
  The loop over \<^verbatim>\<open>other\<close>: points with the id of \<^verbatim>\<open>point\<close> are skipped
  (\<^verbatim>\<open>continue\<close>), the first dominating point ends the loop with
  \<^verbatim>\<open>is_skyline = false\<close>.
\<close>

fun other_loop :: "nat \<Rightarrow> ('a::linorder, 'z) MultiVectorNeighbor_scheme \<Rightarrow>
    ('a, 'z) MultiVectorNeighbor_scheme list \<Rightarrow> bool" where
  "other_loop expected_dim point [] = True"
| "other_loop expected_dim point (other # others) =
     (if id' point = id' other then other_loop expected_dim point others
      else (case dim_loop (distances' other) (distances' point) [0..<expected_dim] False of
              (dominates', strictly_less) \<Rightarrow>
                if dominates' \<and> strictly_less then False
                else other_loop expected_dim point others))"

text \<open>The outer loop appends each point to one of the two output vectors.\<close>

fun point_loop :: "nat \<Rightarrow> ('a::linorder, 'z) MultiVectorNeighbor_scheme list \<Rightarrow>
    ('a, 'z) MultiVectorNeighbor_scheme list \<Rightarrow>
    ('a, 'z) MultiVectorNeighbor_scheme list \<Rightarrow> ('a, 'z) MultiVectorNeighbor_scheme list \<Rightarrow>
    ('a, 'z) MultiVectorNeighbor_scheme list \<times> ('a, 'z) MultiVectorNeighbor_scheme list" where
  "point_loop expected_dim points [] skyline remain_points = (skyline, remain_points)"
| "point_loop expected_dim points (point # rest) skyline remain_points =
     (if other_loop expected_dim point points
      then point_loop expected_dim points rest (skyline @ [point]) remain_points
      else point_loop expected_dim points rest skyline (remain_points @ [point]))"

text \<open>The validation loop: true when no point makes it throw.\<close>

fun dims_ok :: "nat \<Rightarrow> ('a, 'z) MultiVectorNeighbor_scheme list \<Rightarrow> bool" where
  "dims_ok expected_dim [] = True"
| "dims_ok expected_dim (point # rest) =
     (if length (distances' point) \<noteq> expected_dim then False else dims_ok expected_dim rest)"

text \<open>
  \<^verbatim>\<open>findSkyline\<close> is written four times in the source (in \<^verbatim>\<open>MultiVectorGPS\<close>,
  \<^verbatim>\<open>MultiVectorSkylineQueue\<close>, \<^verbatim>\<open>MultiVectorDEG\<close>,
  \<^verbatim>\<open>MultiVectorDEGSkylineQueue\<close>) with the same body; the model is one function over
  both neighbour types, and the member \<^verbatim>\<open>num_dimensions_\<close> that the body reads is
  its first argument.  The two outputs are reference parameters, so the model takes
  their contents at the call and returns their contents at the return (\<open>Inr\<close>) or at the
  throw (\<open>Inl\<close>, together with the error).
\<close>

definition findSkyline :: "nat \<Rightarrow> ('a::linorder, 'z) MultiVectorNeighbor_scheme list \<Rightarrow>
    ('a, 'z) MultiVectorNeighbor_scheme list \<Rightarrow> ('a, 'z) MultiVectorNeighbor_scheme list \<Rightarrow>
    (error \<times> ('a, 'z) MultiVectorNeighbor_scheme list \<times> ('a, 'z) MultiVectorNeighbor_scheme list)
    + (('a, 'z) MultiVectorNeighbor_scheme list \<times> ('a, 'z) MultiVectorNeighbor_scheme list)" where
  "findSkyline expected_dim points skyline remain_points =
     (if points = [] then Inr (skyline, remain_points)
      else if \<not> dims_ok expected_dim points then Inl (InvalidArgument, skyline, remain_points)
      else Inr (point_loop expected_dim points points skyline remain_points))"

text \<open>
  The dominance relation in the words of the specification: \<open>a\<close> dominates \<open>b\<close> iff
  \<open>a\<close> is at most \<open>b\<close> in every dimension and smaller in at least one.
\<close>

definition dominates :: "nat \<Rightarrow> 'a::linorder list \<Rightarrow> 'a list \<Rightarrow> bool" where
  "dominates d a b \<longleftrightarrow> (\<forall>i \<in> set [0..<d]. a ! i \<le> b ! i) \<and> (\<exists>i \<in> set [0..<d]. a ! i < b ! i)"

subsection \<open>The loops compute the dominance test\<close>

lemma dim_loop_eq:
  "(case dim_loop a b dims sl of (dm, sl') \<Rightarrow> dm \<and> sl') \<longleftrightarrow>
     (\<forall>i \<in> set dims. a ! i \<le> b ! i) \<and> (sl \<or> (\<exists>i \<in> set dims. a ! i < b ! i))"
  by (induction dims arbitrary: sl) (auto simp: not_le)

lemma dim_loop_dominates:
  "(case dim_loop a b [0..<d] False of (dm, sl) \<Rightarrow> dm \<and> sl) \<longleftrightarrow> dominates d a b"
  unfolding dim_loop_eq dominates_def by simp

lemma other_loop_eq:
  "other_loop d p others \<longleftrightarrow>
     \<not> (\<exists>q \<in> set others. id' q \<noteq> id' p \<and> dominates d (distances' q) (distances' p))"
proof (induction others)
  case Nil
  then show ?case by simp
next
  case (Cons other others)
  have "(case dim_loop (distances' other) (distances' p) [0..<d] False of
          (dominates', strictly_less) \<Rightarrow>
            if dominates' \<and> strictly_less then False else other_loop d p others)
        = (if dominates d (distances' other) (distances' p) then False else other_loop d p others)"
    using dim_loop_dominates [of "distances' other" "distances' p" d]
    by (auto split: prod.splits)
  with Cons show ?case by auto
qed

lemma point_loop_eq:
  "point_loop d points ps sky rem =
     (sky @ filter (\<lambda>p. other_loop d p points) ps,
      rem @ filter (\<lambda>p. \<not> other_loop d p points) ps)"
  by (induction ps arbitrary: sky rem) auto

lemma dims_ok_eq: "dims_ok d ps \<longleftrightarrow> (\<forall>p \<in> set ps. length (distances' p) = d)"
  by (induction ps) auto

lemma findSkyline_eq:
  "findSkyline d points sky rem =
     (if points = [] then Inr (sky, rem)
      else if \<exists>p \<in> set points. length (distances' p) \<noteq> d then Inl (InvalidArgument, sky, rem)
      else Inr (sky @ filter (\<lambda>p. other_loop d p points) points,
                rem @ filter (\<lambda>p. \<not> other_loop d p points) points))"
  by (simp add: findSkyline_def dims_ok_eq point_loop_eq)

subsection \<open>Dominance is a strict partial order\<close>

lemma dominates_irrefl: "\<not> dominates d a a"
  by (simp add: dominates_def)

lemma dominates_trans:
  assumes "dominates d a b" and "dominates d b c"
  shows "dominates d a c"
proof -
  from assms have le: "\<forall>i \<in> set [0..<d]. a ! i \<le> c ! i"
    unfolding dominates_def by (meson order_trans)
  from assms obtain i where "i \<in> set [0..<d]" "a ! i < b ! i" "b ! i \<le> c ! i"
    unfolding dominates_def by blast
  then have "\<exists>i \<in> set [0..<d]. a ! i < c ! i"
    by (meson less_le_trans)
  with le show ?thesis
    by (simp add: dominates_def)
qed

text \<open>
  In a finite set, whatever is dominated is dominated by a point that nothing in the set
  dominates.
\<close>

lemma minimal_dominator:
  assumes "finite S" and "q \<in> S" and "dominates d (f q) b"
  shows "\<exists>m \<in> S. dominates d (f m) b \<and> (\<forall>r \<in> S. \<not> dominates d (f r) (f m))"
  using assms(2,3)
proof (induction "card {r \<in> S. dominates d (f r) (f q)}" arbitrary: q rule: less_induct)
  case less
  show ?case
  proof (cases "\<exists>r \<in> S. dominates d (f r) (f q)")
    case False
    with less.prems show ?thesis by blast
  next
    case True
    then obtain r where r: "r \<in> S" "dominates d (f r) (f q)" by blast
    have sub: "{x \<in> S. dominates d (f x) (f r)} \<subseteq> {x \<in> S. dominates d (f x) (f q)}"
      using r(2) dominates_trans by blast
    have "r \<in> {x \<in> S. dominates d (f x) (f q)}" "r \<notin> {x \<in> S. dominates d (f x) (f r)}"
      using r dominates_irrefl by auto
    with sub have "{x \<in> S. dominates d (f x) (f r)} \<subset> {x \<in> S. dominates d (f x) (f q)}"
      by blast
    then have "card {x \<in> S. dominates d (f x) (f r)} < card {x \<in> S. dominates d (f x) (f q)}"
      using assms(1) by (intro psubset_card_mono) auto
    moreover have "dominates d (f r) b"
      using r(2) less.prems(2) by (rule dominates_trans)
    ultimately show ?thesis
      using less.hyps r(1) by blast
  qed
qed

lemma undominated_exists:
  assumes "points \<noteq> []"
  shows "\<exists>p \<in> set points. other_loop d p points"
proof -
  from assms obtain p0 where p0: "p0 \<in> set points"
    by (cases points) auto
  show ?thesis
  proof (cases "\<exists>q \<in> set points. dominates d (distances' q) (distances' p0)")
    case False
    with p0 show ?thesis
      unfolding other_loop_eq by blast
  next
    case True
    then obtain q where "q \<in> set points" "dominates d (distances' q) (distances' p0)"
      by blast
    from minimal_dominator [of "set points" q d distances' "distances' p0", OF finite_set this]
    show ?thesis
      unfolding other_loop_eq by blast
  qed
qed

section \<open>Layered pools\<close>

subsection \<open>Ordering and sorting\<close>

text \<open>
  \<^verbatim>\<open>operator<\<close> of both neighbour types compares the distance vectors
  lexicographically, the shorter vector first when one is a prefix of the other.  The
  source walks both vectors with one index; the model walks both lists.
\<close>

fun less_distances :: "'a::linorder list \<Rightarrow> 'a list \<Rightarrow> bool" where
  "less_distances (x # xs) (y # ys) = (if x \<noteq> y then x < y else less_distances xs ys)"
| "less_distances xs ys = (length xs < length ys)"

definition operator_less :: "('a::linorder, 'z) MultiVectorNeighbor_scheme \<Rightarrow>
    ('a, 'z) MultiVectorNeighbor_scheme \<Rightarrow> bool" where
  "operator_less a b = less_distances (distances' a) (distances' b)"

text \<open>
  \<^verbatim>\<open>std::sort\<close> with \<^verbatim>\<open>operator<\<close>.  The standard leaves the order of elements
  that compare equivalent open; the model is the insertion sort, which keeps them in
  their order of arrival.  The theorems below only use that the result is a permutation
  of the input, and the concrete inputs have pairwise different distance vectors.
\<close>

fun sort_insert :: "('a::linorder, 'z) MultiVectorNeighbor_scheme \<Rightarrow>
    ('a, 'z) MultiVectorNeighbor_scheme list \<Rightarrow> ('a, 'z) MultiVectorNeighbor_scheme list" where
  "sort_insert x [] = [x]"
| "sort_insert x (y # ys) = (if operator_less y x then y # sort_insert x ys else x # y # ys)"

fun std_sort :: "('a::linorder, 'z) MultiVectorNeighbor_scheme list \<Rightarrow>
    ('a, 'z) MultiVectorNeighbor_scheme list" where
  "std_sort [] = []"
| "std_sort (x # xs) = sort_insert x (std_sort xs)"

subsection \<open>Constructors\<close>

text \<open>
  The four-argument constructor of \<^verbatim>\<open>MultiVectorNeighbor\<close>, as the loops call it
  through \<^verbatim>\<open>emplace_back(point.id_, point.distances_, f, l)\<close>.
\<close>

definition emplace_gps :: "'a MultiVectorNeighbor \<Rightarrow> bool \<Rightarrow> int \<Rightarrow> 'a MultiVectorNeighbor" where
  "emplace_gps point f layer =
     \<lparr>id' = id' point, distances' = distances' point, flag = f, layer' = layer\<rparr>"

text \<open>
  The constructor of \<^verbatim>\<open>MultiVectorDEGNeighbor\<close>: the bitmap gets
  \<^verbatim>\<open>(num_weight_combinations + 63) / 64\<close> words, all zero.  The sum is computed in
  \<^verbatim>\<open>size_t\<close> (64 bit), so it wraps.
\<close>

definition MultiVectorDEGNeighbor :: "32 word \<Rightarrow> 'a list \<Rightarrow> nat \<Rightarrow> bool \<Rightarrow> int \<Rightarrow>
    'a MultiVectorDEGNeighbor" where
  "MultiVectorDEGNeighbor ident distances num_weight_combinations f layer =
     (let num_uint64 = ((num_weight_combinations + 63) mod 2 ^ 64) div 64 in
      \<lparr>id' = ident, distances' = distances, flag = f, layer' = layer,
       pruning_bitmap' = replicate num_uint64 0,
       num_weight_combinations' = num_weight_combinations\<rparr>)"

definition emplace_deg :: "nat \<Rightarrow> 'a MultiVectorDEGNeighbor \<Rightarrow> bool \<Rightarrow> int \<Rightarrow>
    'a MultiVectorDEGNeighbor" where
  "emplace_deg num_weight_combinations point f layer =
     MultiVectorDEGNeighbor (id' point) (distances' point) num_weight_combinations f layer"

subsection \<open>The layering loops\<close>

text \<open>
  \<^verbatim>\<open>initNeighbor\<close> and \<^verbatim>\<open>updateNeighbor\<close> have the same body in
  \<^verbatim>\<open>MultiVectorGPS\<close> and in \<^verbatim>\<open>MultiVectorDEG\<close>, up to the constructor called by
  \<^verbatim>\<open>emplace_back\<close>, which is the first argument here.  Each iteration calls
  \<^verbatim>\<open>findSkyline\<close> with both output vectors empty (they are swapped with empty
  temporaries at the end of the iteration before).  \<^verbatim>\<open>outlier_.swap(skyline_result)\<close>
  leaves the frontier of the iteration in \<^verbatim>\<open>outlier_\<close>.  When \<^verbatim>\<open>findSkyline\<close>
  throws, the members keep what they hold at that moment (\<open>Inl\<close>).  The layer
  counter \<^verbatim>\<open>l\<close> is an \<^verbatim>\<open>int\<close>; each layer takes at least one point, so it stays
  below the number of points, and its overflow is not modelled.
\<close>

lemma findSkyline_shrinks:
  assumes "findSkyline d points [] [] = Inr (sky, rem)" and "points \<noteq> []"
  shows "sky \<noteq> []" and "length rem < length points"
    and "length sky + length rem = length points"
proof -
  from assms have sky: "sky = filter (\<lambda>p. other_loop d p points) points"
    and rem: "rem = filter (\<lambda>p. \<not> other_loop d p points) points"
    by (auto simp: findSkyline_eq split: if_splits)
  from undominated_exists [OF assms(2)] show "sky \<noteq> []"
    by (simp add: sky filter_empty_conv)
  then have "0 < length sky" by simp
  moreover show "length sky + length rem = length points"
    unfolding sky rem by (rule sum_length_filter_compl)
  ultimately show "length rem < length points" by linarith
qed

function initNeighbor_loop :: "(('a::linorder, 'z) MultiVectorNeighbor_scheme \<Rightarrow> bool \<Rightarrow> int \<Rightarrow>
      ('a, 'z) MultiVectorNeighbor_scheme) \<Rightarrow> nat \<Rightarrow>
    ('a, 'z) MultiVectorNeighbor_scheme list \<Rightarrow> ('a, 'z) MultiVectorNeighbor_scheme list \<Rightarrow>
    ('a, 'z) MultiVectorNeighbor_scheme list \<Rightarrow> int \<Rightarrow>
    (error \<times> ('a, 'z) MultiVectorNeighbor_scheme list \<times> ('a, 'z) MultiVectorNeighbor_scheme list)
    + (('a, 'z) MultiVectorNeighbor_scheme list \<times> ('a, 'z) MultiVectorNeighbor_scheme list \<times> int)"
  where
  "initNeighbor_loop emplace d insert_points pool outlier l =
     (if insert_points \<noteq> [] then
        (case findSkyline d insert_points [] [] of
           Inl (e, _) \<Rightarrow> Inl (e, pool, outlier)
         | Inr (skyline_result, remain_points) \<Rightarrow>
             initNeighbor_loop emplace d remain_points
               (pool @ map (\<lambda>point. emplace point True l) skyline_result)
               skyline_result (l + 1))
      else Inr (pool, outlier, l))"
  by pat_completeness auto
termination
  by (relation "measure (\<lambda>(emplace, d, insert_points, pool, outlier, l). length insert_points)")
    (auto dest: findSkyline_shrinks(2))

function updateNeighbor_loop :: "(('a::linorder, 'z) MultiVectorNeighbor_scheme \<Rightarrow> bool \<Rightarrow> int \<Rightarrow>
      ('a, 'z) MultiVectorNeighbor_scheme) \<Rightarrow> nat \<Rightarrow> nat \<Rightarrow>
    ('a, 'z) MultiVectorNeighbor_scheme list \<Rightarrow> ('a, 'z) MultiVectorNeighbor_scheme list \<Rightarrow>
    ('a, 'z) MultiVectorNeighbor_scheme list \<Rightarrow> int \<Rightarrow>
    (error \<times> ('a, 'z) MultiVectorNeighbor_scheme list \<times> ('a, 'z) MultiVectorNeighbor_scheme list)
    + (('a, 'z) MultiVectorNeighbor_scheme list \<times> ('a, 'z) MultiVectorNeighbor_scheme list \<times> int)"
  where
  "updateNeighbor_loop emplace d m candidate pool outlier l =
     (if length pool < m \<and> length candidate > 0 then
        (case findSkyline d candidate [] [] of
           Inl (e, _) \<Rightarrow> Inl (e, pool, outlier)
         | Inr (skyline_result, remain_points) \<Rightarrow>
             updateNeighbor_loop emplace d m remain_points
               (pool @ map (\<lambda>point. emplace point (flag point) l) skyline_result)
               skyline_result (l + 1))
      else Inr (pool, outlier, l))"
  by pat_completeness auto
termination
  by (relation "measure (\<lambda>(emplace, d, m, candidate, pool, outlier, l). length candidate)")
    (auto dest: findSkyline_shrinks(2))

text \<open>
  Layered peeling in the words of the specification: the frontier of the points, then the
  frontier of the remainder, and so on until no point remains.  The list holds the
  frontiers in the order of their extraction.
\<close>

function peel :: "nat \<Rightarrow> ('a::linorder, 'z) MultiVectorNeighbor_scheme list \<Rightarrow>
    ('a, 'z) MultiVectorNeighbor_scheme list list" where
  "peel d points =
     (if points = [] then []
      else (case findSkyline d points [] [] of
              Inl _ \<Rightarrow> []
            | Inr (frontier, remainder) \<Rightarrow> frontier # peel d remainder))"
  by pat_completeness auto
termination
  by (relation "measure (\<lambda>(d, points). length points)") (auto dest: findSkyline_shrinks(2))

text \<open>
  The two loops of \<^verbatim>\<open>insert\<close>: is there a point with this id?
\<close>

fun id_loop :: "32 word \<Rightarrow> ('a, 'z) MultiVectorNeighbor_scheme list \<Rightarrow> bool" where
  "id_loop ident [] = False"
| "id_loop ident (point # rest) = (if id' point = ident then True else id_loop ident rest)"

subsection \<open>\<^verbatim>\<open>MultiVectorGPS\<close>\<close>

text \<open>
  The mutex is not a field of the model: every operation holds it from its first
  statement to its return, so operations on one instance run one after the other, and an
  operation is a function from the state before to the state after.  \<^verbatim>\<open>M_\<close>,
  \<^verbatim>\<open>Q_\<close>, \<^verbatim>\<open>num_layer_\<close> and \<^verbatim>\<open>num_dimensions_\<close> are \<^verbatim>\<open>unsigned\<close>.
\<close>

record 'a MultiVectorGPS =
  pool' :: "'a MultiVectorNeighbor list"
  outlier' :: "'a MultiVectorNeighbor list"
  M' :: "32 word"
  Q' :: "32 word"
  num_layer' :: "32 word"
  num_dimensions' :: "32 word"
  nn_old' :: "32 word list"
  nn_new' :: "32 word list"
  rnn_old' :: "32 word list"
  rnn_new' :: "32 word list"

definition initNeighbor_gps :: "'a::linorder MultiVectorGPS \<Rightarrow> 'a MultiVectorNeighbor list \<Rightarrow>
    (error \<times> 'a MultiVectorGPS) + 'a MultiVectorGPS" where
  "initNeighbor_gps s insert_points =
     (case initNeighbor_loop emplace_gps (unat (num_dimensions' s)) insert_points
             (pool' s) (outlier' s) 0 of
        Inl (e, pool, outlier) \<Rightarrow> Inl (e, s\<lparr>pool' := pool, outlier' := outlier\<rparr>)
      | Inr (pool, outlier, l) \<Rightarrow>
          Inr (s\<lparr>pool' := std_sort pool, outlier' := outlier, num_layer' := of_int l,
                 nn_new' := [], nn_old' := [], rnn_new' := [], rnn_old' := []\<rparr>))"

definition updateNeighbor_gps :: "'a::linorder MultiVectorGPS \<Rightarrow>
    (error \<times> 'a MultiVectorGPS) + 'a MultiVectorGPS" where
  "updateNeighbor_gps s =
     (let candidate = std_sort (pool' s) in
      case updateNeighbor_loop emplace_gps (unat (num_dimensions' s)) (unat (M' s)) candidate
             [] (outlier' s) 0 of
        Inl (e, pool, outlier) \<Rightarrow> Inl (e, s\<lparr>pool' := pool, outlier' := outlier\<rparr>)
      | Inr (pool, outlier, l) \<Rightarrow>
          Inr (s\<lparr>pool' := pool, outlier' := outlier, num_layer' := of_int l\<rparr>))"

definition insert_gps :: "'a MultiVectorGPS \<Rightarrow> 32 word \<Rightarrow> 'a list \<Rightarrow>
    (error \<times> 'a MultiVectorGPS) + 'a MultiVectorGPS" where
  "insert_gps s ident distances =
     (if length distances \<noteq> unat (num_dimensions' s) then Inl (InvalidArgument, s)
      else if id_loop ident (pool' s) then Inr s
      else if id_loop ident (outlier' s) then Inr s
      else Inr (s\<lparr>outlier' := outlier' s @
                    [\<lparr>id' = ident, distances' = distances, flag = True, layer' = 0\<rparr>]\<rparr>))"

subsection \<open>\<^verbatim>\<open>MultiVectorDEG\<close>\<close>

text \<open>
  The members of \<^verbatim>\<open>MultiVectorDEG\<close> carry the prefix \<open>deg_\<close> where
  \<^verbatim>\<open>MultiVectorGPS\<close> or the neighbour has a member of the same name.  The weights
  are \<^verbatim>\<open>float\<close>; they are rationals here, see the section on the weight lattice.
\<close>

record 'a MultiVectorDEG =
  deg_pool' :: "'a MultiVectorDEGNeighbor list"
  deg_outlier' :: "'a MultiVectorDEGNeighbor list"
  deg_M' :: "32 word"
  deg_Q' :: "32 word"
  deg_num_layer' :: "32 word"
  deg_num_dimensions' :: "32 word"
  weight_combinations' :: "rat list list"
  deg_num_weight_combinations' :: nat

definition initNeighbor_deg :: "'a::linorder MultiVectorDEG \<Rightarrow> 'a MultiVectorDEGNeighbor list \<Rightarrow>
    (error \<times> 'a MultiVectorDEG) + 'a MultiVectorDEG" where
  "initNeighbor_deg s insert_points =
     (case initNeighbor_loop (emplace_deg (deg_num_weight_combinations' s))
             (unat (deg_num_dimensions' s)) insert_points (deg_pool' s) (deg_outlier' s) 0 of
        Inl (e, pool, outlier) \<Rightarrow> Inl (e, s\<lparr>deg_pool' := pool, deg_outlier' := outlier\<rparr>)
      | Inr (pool, outlier, l) \<Rightarrow>
          Inr (s\<lparr>deg_pool' := std_sort pool, deg_outlier' := outlier,
                 deg_num_layer' := of_int l\<rparr>))"

definition updateNeighbor_deg :: "'a::linorder MultiVectorDEG \<Rightarrow>
    (error \<times> 'a MultiVectorDEG) + 'a MultiVectorDEG" where
  "updateNeighbor_deg s =
     (let candidate = std_sort (deg_pool' s) in
      case updateNeighbor_loop (emplace_deg (deg_num_weight_combinations' s))
             (unat (deg_num_dimensions' s)) (unat (deg_M' s)) candidate [] (deg_outlier' s) 0 of
        Inl (e, pool, outlier) \<Rightarrow> Inl (e, s\<lparr>deg_pool' := pool, deg_outlier' := outlier\<rparr>)
      | Inr (pool, outlier, l) \<Rightarrow>
          Inr (s\<lparr>deg_pool' := pool, deg_outlier' := outlier, deg_num_layer' := of_int l\<rparr>))"

definition insert_deg :: "'a MultiVectorDEG \<Rightarrow> 32 word \<Rightarrow> 'a list \<Rightarrow>
    (error \<times> 'a MultiVectorDEG) + 'a MultiVectorDEG" where
  "insert_deg s ident distances =
     (if length distances \<noteq> unat (deg_num_dimensions' s) then Inl (InvalidArgument, s)
      else if id_loop ident (deg_pool' s) then Inr s
      else if id_loop ident (deg_outlier' s) then Inr s
      else Inr (s\<lparr>deg_outlier' := deg_outlier' s @
                    [MultiVectorDEGNeighbor ident distances (deg_num_weight_combinations' s)
                       True 0]\<rparr>))"

subsection \<open>\<^verbatim>\<open>MultiVectorSkylineQueue\<close>\<close>








text \<open>
  The \<^verbatim>\<open>for\<close> loop inside \<^verbatim>\<open>updateNeighbor(int &nk)\<close>.  Its variables are the
  pool, the counter \<^verbatim>\<open>k\<close>, the output parameter \<^verbatim>\<open>nk\<close> and \<^verbatim>\<open>updated\<close>.
  While \<^verbatim>\<open>updated\<close> holds, a point without the flag runs \<^verbatim>\<open>k++\<close> in the
  \<^verbatim>\<open>else\<close> branch, and every point runs the \<^verbatim>\<open>k++\<close> that ends the body.
\<close>

fun emplace_loop :: "'a MultiVectorNeighbor list \<Rightarrow> int \<Rightarrow>
    'a MultiVectorNeighbor list \<times> int \<times> int \<times> bool \<Rightarrow>
    'a MultiVectorNeighbor list \<times> int \<times> int \<times> bool" where
  "emplace_loop [] l (pool, k, nk, updated) = (pool, k, nk, updated)"
| "emplace_loop (point # rest) l (pool, k, nk, updated) =
     (let pool = pool @ [emplace_gps point (flag point) l] in
      if updated then
        (if flag point then emplace_loop rest l (pool, k + 1, k, False)
         else emplace_loop rest l (pool, (k + 1) + 1, nk, updated))
      else emplace_loop rest l (pool, k + 1, nk, updated))"

function updateNeighbor_sq_loop :: "nat \<Rightarrow> nat \<Rightarrow> 'a::linorder MultiVectorNeighbor list \<Rightarrow>
    int \<Rightarrow> 'a MultiVectorNeighbor list \<times> int \<times> int \<times> bool \<Rightarrow>
    (error \<times> 'a MultiVectorNeighbor list \<times> int) + ('a MultiVectorNeighbor list \<times> int \<times> int)"
  where
  "updateNeighbor_sq_loop d m candidate l (pool, k, nk, updated) =
     (if length pool < m \<and> length candidate > 0 then
        (case findSkyline d candidate [] [] of
           Inl (e, _) \<Rightarrow> Inl (e, pool, nk)
         | Inr (skyline_result, remain_points) \<Rightarrow>
             updateNeighbor_sq_loop d m remain_points (l + 1)
               (emplace_loop skyline_result l (pool, k, nk, updated)))
      else Inr (pool, l, nk))"
  by pat_completeness auto
termination
  by (relation "measure (\<lambda>(d, m, candidate, l, vars). length candidate)")
    (auto dest: findSkyline_shrinks(2))



section \<open>The pruning bitmap\<close>

text \<open>
  \<^verbatim>\<open>setPruned\<close> and \<^verbatim>\<open>isPruned\<close> of \<^verbatim>\<open>MultiVectorDEGNeighbor\<close>.  Bit
  \<^verbatim>\<open>weight_idx % 64\<close> of word \<^verbatim>\<open>weight_idx / 64\<close> is the state of the weight
  combination \<^verbatim>\<open>weight_idx\<close>.  The source indexes the vector without a check
  (\<^verbatim>\<open>pruning_bitmap_[uint64_idx]\<close>); the constructor sizes the vector so that the
  word is there for every index below \<^verbatim>\<open>num_weight_combinations_\<close>.
\<close>

definition setPruned :: "'a MultiVectorDEGNeighbor \<Rightarrow> nat \<Rightarrow> bool \<Rightarrow>
    (error \<times> 'a MultiVectorDEGNeighbor) + 'a MultiVectorDEGNeighbor" where
  "setPruned p weight_idx pruned =
     (if weight_idx \<ge> num_weight_combinations' p then Inl (OutOfRange, p)
      else
        let uint64_idx = weight_idx div 64;
            bit_idx = weight_idx mod 64;
            word = pruning_bitmap' p ! uint64_idx
        in Inr (p\<lparr>pruning_bitmap' := (pruning_bitmap' p)
                  [uint64_idx := (if pruned then word OR push_bit bit_idx 1
                                  else word AND NOT (push_bit bit_idx 1))]\<rparr>))"

definition isPruned :: "'a MultiVectorDEGNeighbor \<Rightarrow> nat \<Rightarrow> error + bool" where
  "isPruned p weight_idx =
     (if weight_idx \<ge> num_weight_combinations' p then Inl OutOfRange
      else
        let uint64_idx = weight_idx div 64;
            bit_idx = weight_idx mod 64
        in Inr ((pruning_bitmap' p ! uint64_idx AND push_bit bit_idx 1) \<noteq> 0))"

text \<open>
  A neighbour after a sequence of calls of \<^verbatim>\<open>setPruned\<close>; a call that throws leaves
  the neighbour as it was.
\<close>

fun setPruned_calls :: "'a MultiVectorDEGNeighbor \<Rightarrow> (nat \<times> bool) list \<Rightarrow>
    'a MultiVectorDEGNeighbor" where
  "setPruned_calls p [] = p"
| "setPruned_calls p ((weight_idx, pruned) # calls) =
     (case setPruned p weight_idx pruned of
        Inl (e, p') \<Rightarrow> setPruned_calls p' calls
      | Inr p' \<Rightarrow> setPruned_calls p' calls)"

section \<open>The weight lattice\<close>

subsection \<open>Single-precision arithmetic\<close>

text \<open>
  \<^verbatim>\<open>generateWeightCombinations\<close> computes in \<^verbatim>\<open>float\<close>.  A finite \<^verbatim>\<open>float\<close> is
  a rational number, and an operation of IEEE 754 binary32 returns the exact result
  rounded to the nearest representable number, ties to the even significand.  \<open>fl32\<close> is
  that rounding: a number \<open>x\<close> with \<open>2\<^sup>e \<le> |x| < 2\<^sup>e\<^sup>+\<^sup>1\<close> is rounded to a multiple of
  \<open>2\<^sup>e\<^sup>-\<^sup>2\<^sup>3\<close>, and the exponent is not below \<open>-126\<close> (subnormal numbers).  The
  overflow to infinity above \<open>2\<^sup>1\<^sup>2\<^sup>8\<close> is not modelled; no number of this program
  is larger than 11.
\<close>

fun bitlen :: "nat \<Rightarrow> nat" where
  "bitlen n = (if n = 0 then 0 else Suc (bitlen (n div 2)))"

declare bitlen.simps [simp del]

definition pow2 :: "int \<Rightarrow> rat" where
  "pow2 e = (if e \<ge> 0 then 2 ^ nat e else 1 / 2 ^ nat (- e))"

text \<open>The exponent \<open>\<lfloor>log\<^sub>2 |x|\<rfloor>\<close> of a number other than zero, not below \<open>-126\<close>.\<close>

definition exponent :: "rat \<Rightarrow> int" where
  "exponent x =
     max (- 126)
       (if \<bar>x\<bar> \<ge> 1 then int (bitlen (nat \<lfloor>\<bar>x\<bar>\<rfloor>)) - 1
        else - int (bitlen (nat (\<lceil>1 / \<bar>x\<bar>\<rceil> - 1))))"

definition round_even :: "rat \<Rightarrow> int" where
  "round_even y =
     (let f = \<lfloor>y\<rfloor>; r = y - of_int f
      in if r < 1 / 2 then f else if r > 1 / 2 then f + 1 else if even f then f else f + 1)"

definition fl32 :: "rat \<Rightarrow> rat" where
  "fl32 x =
     (if x = 0 then 0
      else let ulp = pow2 (exponent x - 23) in of_int (round_even (x / ulp)) * ulp)"

definition fadd :: "rat \<Rightarrow> rat \<Rightarrow> rat" where
  "fadd a b = fl32 (a + b)"

definition fsub :: "rat \<Rightarrow> rat \<Rightarrow> rat" where
  "fsub a b = fl32 (a - b)"

definition fmul :: "rat \<Rightarrow> rat \<Rightarrow> rat" where
  "fmul a b = fl32 (a * b)"

definition fdiv :: "rat \<Rightarrow> rat \<Rightarrow> rat" where
  "fdiv a b = fl32 (a / b)"

text \<open>
  \<^verbatim>\<open>std::round\<close> rounds to the nearest integer, halves away from zero; its result is
  a \<^verbatim>\<open>float\<close> with an integral value.
\<close>

definition std_round :: "rat \<Rightarrow> rat" where
  "std_round x = (if x \<ge> 0 then of_int \<lfloor>x + 1 / 2\<rfloor> else - of_int \<lfloor>- x + 1 / 2\<rfloor>)"

text \<open>The literals \<^verbatim>\<open>0.1f\<close>, \<^verbatim>\<open>0.001f\<close> and \<^verbatim>\<open>1.001f\<close>.\<close>

definition WEIGHT_STEP :: rat where
  "WEIGHT_STEP = fl32 (1 / 10)"

definition lit_0_001 :: rat where
  "lit_0_001 = fl32 (1 / 1000)"

definition lit_1_001 :: rat where
  "lit_1_001 = fl32 (1001 / 1000)"

subsection \<open>\<^verbatim>\<open>generateWeightCombinations\<close>\<close>

text \<open>
  The recursive lambda \<^verbatim>\<open>backtrack\<close> and its \<^verbatim>\<open>for\<close> loop.  The loop runs as long
  as its condition holds, and the condition depends on rounded sums, so nothing in the
  text of the loop bounds the number of its iterations: the model is a partial function,
  and \<open>None\<close> stands for a call that does not return.  The argument \<open>loop_w\<close> is
  \<open>None\<close> at the entry of \<^verbatim>\<open>backtrack\<close> and \<open>Some w\<close> at the head of the loop with
  the loop variable \<open>w\<close>.  The vector \<^verbatim>\<open>current\<close>, which the source extends before a
  recursive call and shortens after it, is an argument; the vector \<^verbatim>\<open>result\<close> is
  passed in and returned.  The calls that \<^verbatim>\<open>generateWeightCombinations\<close> makes have
  \<open>dim_idx < num_dimensions\<close>, so the differences of \<^verbatim>\<open>size_t\<close> do not wrap.
\<close>

partial_function (option) backtrack :: "nat \<Rightarrow> nat \<Rightarrow> rat \<Rightarrow> rat \<Rightarrow> rat option \<Rightarrow>
    rat list \<Rightarrow> rat list list \<Rightarrow> rat list list option" where
  "backtrack num_dimensions dim_idx current_sum remaining loop_w current result =
     (case loop_w of
        None \<Rightarrow>
          if dim_idx = num_dimensions - 1 then
            (let last_weight = fsub 1 current_sum in
             if last_weight \<ge> - lit_0_001 \<and> last_weight \<le> lit_1_001 then
               (let rounded = fdiv (std_round (fmul last_weight 10)) 10 in
                if rounded \<ge> - lit_0_001 \<and> rounded \<le> lit_1_001
                then Some (result @ [current @ [rounded]])
                else Some result)
             else Some result)
          else backtrack num_dimensions dim_idx current_sum remaining (Some 0) current result
      | Some w \<Rightarrow>
          if w \<le> lit_1_001 \<and> fadd current_sum w \<le> lit_1_001 then
            (let rounded_w = fdiv (std_round (fmul w 10)) 10;
                 min_needed = 0;
                 max_possible = fmul (fl32 (of_nat (num_dimensions - dim_idx - 1))) 1;
                 remaining_needed = fsub 1 (fadd current_sum rounded_w)
             in if remaining_needed \<ge> fsub min_needed lit_0_001
                   \<and> remaining_needed \<le> fadd max_possible lit_0_001
                then
                  Option.bind
                    (backtrack num_dimensions (dim_idx + 1) (fadd current_sum rounded_w)
                       remaining_needed None (current @ [rounded_w]) result)
                    (\<lambda>result. backtrack num_dimensions dim_idx current_sum remaining
                       (Some (fadd w WEIGHT_STEP)) current result)
                else backtrack num_dimensions dim_idx current_sum remaining
                       (Some (fadd w WEIGHT_STEP)) current result)
          else Some result)"

text \<open>
  \<^verbatim>\<open>std::sort\<close> orders the vectors lexicographically and \<^verbatim>\<open>std::unique\<close> removes
  each element equal to its predecessor.
\<close>

definition generateWeightCombinations :: "nat \<Rightarrow> rat list list option" where
  "generateWeightCombinations num_dimensions =
     (if num_dimensions = 0 then Some []
      else if num_dimensions = 1 then Some [ [1] ]
      else Option.bind (backtrack num_dimensions 0 0 1 None [] [])
             (\<lambda>result. Some (remdups_adj (sort result))))"

section \<open>Concrete instances\<close>

text \<open>The five points of the scenario in the specification, with integer distances.\<close>

definition scenario_points :: "int MultiVectorNeighbor list" where
  "scenario_points =
     [\<lparr>id' = 0, distances' = [10, 20], flag = True, layer' = 0\<rparr>,
      \<lparr>id' = 1, distances' = [5, 30], flag = True, layer' = 0\<rparr>,
      \<lparr>id' = 2, distances' = [15, 10], flag = True, layer' = 0\<rparr>,
      \<lparr>id' = 3, distances' = [8, 15], flag = True, layer' = 0\<rparr>,
      \<lparr>id' = 4, distances' = [20, 25], flag = True, layer' = 0\<rparr>]"

text \<open>
  \<^verbatim>\<open>MultiVectorGPS gps(10, 5, 2, 2)\<close> right after construction, the same instance after
  \<^verbatim>\<open>initNeighbor\<close> on the five points of the scenario, and with the capacity 1.
\<close>

definition gps_empty :: "int MultiVectorGPS" where
  "gps_empty = \<lparr>pool' = [], outlier' = [], M' = 10, Q' = 2, num_layer' = 0,
     num_dimensions' = 2, nn_old' = [], nn_new' = [], rnn_old' = [], rnn_new' = []\<rparr>"

definition gps_layered :: "int MultiVectorGPS" where
  "gps_layered = \<lparr>pool' =
       [\<lparr>id' = 1, distances' = [5, 30], flag = True, layer' = 0\<rparr>,
        \<lparr>id' = 3, distances' = [8, 15], flag = True, layer' = 0\<rparr>,
        \<lparr>id' = 0, distances' = [10, 20], flag = True, layer' = 1\<rparr>,
        \<lparr>id' = 2, distances' = [15, 10], flag = True, layer' = 0\<rparr>,
        \<lparr>id' = 4, distances' = [20, 25], flag = True, layer' = 2\<rparr>],
     outlier' = [\<lparr>id' = 4, distances' = [20, 25], flag = True, layer' = 0\<rparr>],
     M' = 10, Q' = 2, num_layer' = 3, num_dimensions' = 2,
     nn_old' = [], nn_new' = [], rnn_old' = [], rnn_new' = []\<rparr>"

definition gps_small :: "int MultiVectorGPS" where
  "gps_small = gps_layered\<lparr>M' := 1\<rparr>"

text \<open>
  \<^verbatim>\<open>MultiVectorDEG deg(10, 5, 2, 2)\<close> right after construction: the constructor
  stores the result of \<^verbatim>\<open>generateWeightCombinations(2)\<close> and its size, 11.  The five
  points of the scenario for it, and the instance after \<^verbatim>\<open>initNeighbor\<close> on them.
\<close>

definition deg_empty :: "int MultiVectorDEG" where
  "deg_empty = \<lparr>deg_pool' = [], deg_outlier' = [], deg_M' = 10, deg_Q' = 2,
     deg_num_layer' = 0, deg_num_dimensions' = 2,
     weight_combinations' = the (generateWeightCombinations 2),
     deg_num_weight_combinations' = 11\<rparr>"

definition deg_points :: "int MultiVectorDEGNeighbor list" where
  "deg_points =
     [MultiVectorDEGNeighbor 0 [10, 20] 11 True 0, MultiVectorDEGNeighbor 1 [5, 30] 11 True 0,
      MultiVectorDEGNeighbor 2 [15, 10] 11 True 0, MultiVectorDEGNeighbor 3 [8, 15] 11 True 0,
      MultiVectorDEGNeighbor 4 [20, 25] 11 True 0]"

definition deg_layered :: "int MultiVectorDEG" where
  "deg_layered = deg_empty\<lparr>deg_pool' :=
       [MultiVectorDEGNeighbor 1 [5, 30] 11 True 0, MultiVectorDEGNeighbor 3 [8, 15] 11 True 0,
        MultiVectorDEGNeighbor 0 [10, 20] 11 True 1, MultiVectorDEGNeighbor 2 [15, 10] 11 True 0,
        MultiVectorDEGNeighbor 4 [20, 25] 11 True 2],
     deg_outlier' := [MultiVectorDEGNeighbor 4 [20, 25] 11 True 0], deg_num_layer' := 3\<rparr>"




text \<open>
  \<open>gps_small\<close> after \<^verbatim>\<open>updateNeighbor\<close>; \<open>gps_layered\<close> after
  \<^verbatim>\<open>insert(9, {1, 1})\<close>, and after the \<^verbatim>\<open>updateNeighbor\<close> that follows it.
\<close>

definition gps_small_updated :: "int MultiVectorGPS" where
  "gps_small_updated = gps_small\<lparr>pool' :=
       [\<lparr>id' = 1, distances' = [5, 30], flag = True, layer' = 0\<rparr>,
        \<lparr>id' = 3, distances' = [8, 15], flag = True, layer' = 0\<rparr>,
        \<lparr>id' = 2, distances' = [15, 10], flag = True, layer' = 0\<rparr>],
     outlier' :=
       [\<lparr>id' = 1, distances' = [5, 30], flag = True, layer' = 0\<rparr>,
        \<lparr>id' = 3, distances' = [8, 15], flag = True, layer' = 0\<rparr>,
        \<lparr>id' = 2, distances' = [15, 10], flag = True, layer' = 0\<rparr>],
     num_layer' := 1\<rparr>"

definition gps_inserted :: "int MultiVectorGPS" where
  "gps_inserted = gps_layered\<lparr>outlier' :=
       [\<lparr>id' = 4, distances' = [20, 25], flag = True, layer' = 0\<rparr>,
        \<lparr>id' = 9, distances' = [1, 1], flag = True, layer' = 0\<rparr>]\<rparr>"

definition gps_inserted_updated :: "int MultiVectorGPS" where
  "gps_inserted_updated = gps_layered\<lparr>pool' :=
       [\<lparr>id' = 1, distances' = [5, 30], flag = True, layer' = 0\<rparr>,
        \<lparr>id' = 3, distances' = [8, 15], flag = True, layer' = 0\<rparr>,
        \<lparr>id' = 2, distances' = [15, 10], flag = True, layer' = 0\<rparr>,
        \<lparr>id' = 0, distances' = [10, 20], flag = True, layer' = 1\<rparr>,
        \<lparr>id' = 4, distances' = [20, 25], flag = True, layer' = 2\<rparr>],
     outlier' := [\<lparr>id' = 4, distances' = [20, 25], flag = True, layer' = 2\<rparr>]\<rparr>"

text \<open>The \<^verbatim>\<open>MultiVectorDEG\<close> instance with capacity 1, before and after \<^verbatim>\<open>updateNeighbor\<close>.\<close>

definition deg_small :: "int MultiVectorDEG" where
  "deg_small = deg_layered\<lparr>deg_M' := 1\<rparr>"

definition deg_small_updated :: "int MultiVectorDEG" where
  "deg_small_updated = deg_small\<lparr>deg_pool' :=
       [MultiVectorDEGNeighbor 1 [5, 30] 11 True 0, MultiVectorDEGNeighbor 3 [8, 15] 11 True 0,
        MultiVectorDEGNeighbor 2 [15, 10] 11 True 0],
     deg_outlier' :=
       [MultiVectorDEGNeighbor 1 [5, 30] 11 True 0, MultiVectorDEGNeighbor 3 [8, 15] 11 True 0,
        MultiVectorDEGNeighbor 2 [15, 10] 11 True 0],
     deg_num_layer' := 1\<rparr>"

section \<open>Notions used in the proofs\<close>

text \<open>What both constructors do with the arguments of \<^verbatim>\<open>emplace_back\<close>.\<close>

definition emplace_copies :: "(('a, 'z) MultiVectorNeighbor_scheme \<Rightarrow> bool \<Rightarrow> int \<Rightarrow>
    ('a, 'z) MultiVectorNeighbor_scheme) \<Rightarrow> bool" where
  "emplace_copies emplace \<longleftrightarrow>
     (\<forall>p f l. id' (emplace p f l) = id' p \<and> distances' (emplace p f l) = distances' p
        \<and> flag (emplace p f l) = f \<and> layer' (emplace p f l) = l)"

text \<open>The id and the distances of a point: what \<^verbatim>\<open>emplace_back\<close> copies.\<close>

definition key :: "('a, 'z) MultiVectorNeighbor_scheme \<Rightarrow> 32 word \<times> 'a list" where
  "key p = (id' p, distances' p)"

text \<open>
  What the constructor establishes and \<^verbatim>\<open>setPruned\<close> keeps: the bitmap has a word
  for every index below the number of weight combinations \<open>K\<close>.
\<close>

definition bitmap_fits :: "nat \<Rightarrow> 'a MultiVectorDEGNeighbor \<Rightarrow> bool" where
  "bitmap_fits K p \<longleftrightarrow>
     num_weight_combinations' p = K \<and> length (pruning_bitmap' p) = (K + 63) div 64"

text \<open>
  The loop variable after \<open>i\<close> increments, and the \<^verbatim>\<open>float\<close> next to \<open>k / 10\<close>.
\<close>

primrec w_iter :: "nat \<Rightarrow> rat" where
  "w_iter 0 = 0"
| "w_iter (Suc i) = fadd (w_iter i) WEIGHT_STEP"

definition tenth :: "nat \<Rightarrow> rat" where
  "tenth k = fl32 (of_nat k / 10)"

text \<open>
  At depth \<open>dim_idx\<close> the running sum \<^verbatim>\<open>current_sum\<close> is the rounded sum of
  \<open>dim_idx\<close> rounded weights; when the weights stand for \<open>s\<close> tenths it differs from
  \<open>s / 10\<close> by at most \<open>dim_idx\<close> times \<open>2\<^sup>-\<^sup>2\<^sup>0\<close>.
\<close>

definition near_sum :: "nat \<Rightarrow> nat \<Rightarrow> rat \<Rightarrow> bool" where
  "near_sum dim_idx s cs \<longleftrightarrow>
     dim_idx \<le> 7 \<and> s \<le> 10
     \<and> of_nat s / 10 - of_nat dim_idx / 1048576 \<le> cs
     \<and> cs \<le> of_nat s / 10 + of_nat dim_idx / 1048576"

text \<open>
  The lists of \<open>m\<close> natural numbers with sum \<open>r\<close>, in lexicographic order: the tenths
  that \<^verbatim>\<open>backtrack\<close> distributes over the \<open>m\<close> remaining dimensions.
\<close>

fun comps :: "nat \<Rightarrow> nat \<Rightarrow> nat list list" where
  "comps 0 r = []"
| "comps (Suc 0) r = [ [r] ]"
| "comps (Suc (Suc m)) r = concat (map (\<lambda>k. map ((#) k) (comps (Suc m) (r - k))) [0..<Suc r])"


section \<open>Properties of the layering loops\<close>

declare initNeighbor_loop.simps [simp del]
declare updateNeighbor_loop.simps [simp del]
declare updateNeighbor_sq_loop.simps [simp del]
declare peel.simps [simp del]

lemma emplace_gps_copies: "emplace_copies emplace_gps"
  by (simp add: emplace_copies_def emplace_gps_def)

lemma emplace_deg_copies: "emplace_copies (emplace_deg K)"
  by (simp add: emplace_copies_def emplace_deg_def MultiVectorDEGNeighbor_def)

lemma set_sort_insert: "set (sort_insert x xs) = insert x (set xs)"
  by (induction xs) auto

lemma set_std_sort: "set (std_sort xs) = set xs"
  by (induction xs) (auto simp: set_sort_insert)

lemma length_sort_insert: "length (sort_insert x xs) = Suc (length xs)"
  by (induction xs) auto

lemma length_std_sort: "length (std_sort xs) = length xs"
  by (induction xs) (auto simp: length_sort_insert)

lemma id_loop_eq: "id_loop ident ps \<longleftrightarrow> ident \<in> id' ` set ps"
  by (induction ps) auto

subsection \<open>The loop of \<^verbatim>\<open>updateNeighbor\<close>\<close>

lemma updateNeighbor_loop_length:
  assumes "updateNeighbor_loop emplace d m cand pool outlier l = Inr (pool1, outlier1, l1)"
  shows "length pool1 \<le> length pool + length cand
    \<and> (length pool1 < m \<longrightarrow> length pool1 = length pool + length cand)
    \<and> ((pool1 = pool \<and> outlier1 = outlier \<and> l1 = l) \<or> length pool1 < m + length outlier1)"
  using assms
proof (induction emplace d m cand pool outlier l rule: updateNeighbor_loop.induct)
  case (1 emplace d m candidate pool outlier l)
  show ?case
  proof (cases "length pool < m \<and> length candidate > 0")
    case False
    with "1.prems" have "pool1 = pool" "outlier1 = outlier" "l1 = l"
      by (auto simp: updateNeighbor_loop.simps [of emplace d m candidate] split: if_splits)
    with False show ?thesis by auto
  next
    case True
    with "1.prems" obtain sky rem where fs: "findSkyline d candidate [] [] = Inr (sky, rem)"
      and rec: "updateNeighbor_loop emplace d m rem
                  (pool @ map (\<lambda>point. emplace point (flag point) l) sky) sky (l + 1)
                = Inr (pool1, outlier1, l1)"
      by (auto simp: updateNeighbor_loop.simps [of emplace d m candidate] split: sum.splits)
    from True have ne: "candidate \<noteq> []" by auto
    note len = findSkyline_shrinks(3) [OF fs ne]
    note ih = "1.IH" [OF True fs refl rec]
    from ih have "length pool1 \<le> length pool + length sky + length rem"
      and "length pool1 < m \<longrightarrow> length pool1 = length pool + length sky + length rem"
      by simp_all
    with len have g1: "length pool1 \<le> length pool + length candidate"
      and g2: "length pool1 < m \<longrightarrow> length pool1 = length pool + length candidate"
      by linarith+
    from ih have "(pool1 = pool @ map (\<lambda>point. emplace point (flag point) l) sky
                \<and> outlier1 = sky \<and> l1 = l + 1) \<or> length pool1 < m + length outlier1"
      by simp
    then have g3: "length pool1 < m + length outlier1"
      using True by auto
    from g1 g2 g3 show ?thesis by blast
  qed
qed

lemma updateNeighbor_loop_ids:
  assumes "emplace_copies emplace"
    and "updateNeighbor_loop emplace d m cand pool outlier l = Inr (pool1, outlier1, l1)"
  shows "id' ` set pool1 \<subseteq> id' ` set pool \<union> id' ` set cand"
  using assms
proof (induction emplace d m cand pool outlier l rule: updateNeighbor_loop.induct)
  case (1 emplace d m candidate pool outlier l)
  note copies = "1.prems"(1) and run = "1.prems"(2)
  show ?case
  proof (cases "length pool < m \<and> length candidate > 0")
    case False
    with run have "pool1 = pool"
      by (auto simp: updateNeighbor_loop.simps [of emplace d m candidate] split: if_splits)
    then show ?thesis by auto
  next
    case True
    with run obtain sky rem where fs: "findSkyline d candidate [] [] = Inr (sky, rem)"
      and rec: "updateNeighbor_loop emplace d m rem
                  (pool @ map (\<lambda>point. emplace point (flag point) l) sky) sky (l + 1)
                = Inr (pool1, outlier1, l1)"
      by (auto simp: updateNeighbor_loop.simps [of emplace d m candidate] split: sum.splits)
    from fs True have sky: "set sky \<subseteq> set candidate" and rem: "set rem \<subseteq> set candidate"
      by (auto simp: findSkyline_eq split: if_splits)
    have "id' ` set (map (\<lambda>point. emplace point (flag point) l) sky) = id' ` set sky"
      using copies by (force simp: emplace_copies_def image_iff)
    then have "id' ` set (pool @ map (\<lambda>point. emplace point (flag point) l) sky)
        = id' ` set pool \<union> id' ` set sky"
      by (simp only: set_append image_Un)
    with "1.IH" [OF True fs refl copies rec]
    have "id' ` set pool1 \<subseteq> id' ` set pool \<union> id' ` set sky \<union> id' ` set rem"
      by simp
    moreover have "id' ` set sky \<subseteq> id' ` set candidate"
      using sky by (rule image_mono)
    moreover have "id' ` set rem \<subseteq> id' ` set candidate"
      using rem by (rule image_mono)
    ultimately show ?thesis
      by (meson Un_least Un_upper1 Un_upper2 subset_trans)
  qed
qed

subsection \<open>The loop of \<^verbatim>\<open>initNeighbor\<close>\<close>

text \<open>
  One iteration on an input with distinct ids and vectors of length \<open>d\<close>: the frontier
  holds the points that nothing in the input dominates, the rest is a part of the input.
\<close>

lemma findSkyline_step:
  assumes "distinct (map id' pts)" and "\<forall>p \<in> set pts. length (distances' p) = d"
    and "pts \<noteq> []"
  obtains sky rem where "findSkyline d pts [] [] = Inr (sky, rem)"
    and "set sky \<subseteq> set pts" and "set rem \<subseteq> set pts"
    and "distinct (map id' rem)"
    and "\<forall>p \<in> set sky. \<forall>q \<in> set pts. \<not> dominates d (distances' q) (distances' p)"
proof -
  let ?sky = "filter (\<lambda>p. other_loop d p pts) pts"
  let ?rem = "filter (\<lambda>p. \<not> other_loop d p pts) pts"
  have inj: "inj_on id' (set pts)"
    using assms(1) by (simp add: distinct_map)
  have "\<not> dominates d (distances' q) (distances' p)"
    if "p \<in> set ?sky" and "q \<in> set pts" for p q
  proof (cases "q = p")
    case True
    then show ?thesis by (simp add: dominates_irrefl)
  next
    case False
    with that inj have "id' q \<noteq> id' p"
      by (auto dest: inj_onD)
    with that show ?thesis
      unfolding other_loop_eq by auto
  qed
  moreover have "findSkyline d pts [] [] = Inr (?sky, ?rem)"
    using assms(2,3) by (simp add: findSkyline_eq)
  moreover have "distinct (map id' ?rem)"
    using assms(1) by (rule distinct_map_filter)
  ultimately show thesis
    by (intro that [of ?sky ?rem]) auto
qed

lemma initNeighbor_loop_layers:
  assumes "emplace_copies emplace"
    and "distinct (map id' pts)"
    and "\<forall>p \<in> set pts. length (distances' p) = d"
    and "\<forall>p \<in> set pool. \<forall>q \<in> set pts. \<not> dominates d (distances' q) (distances' p)"
    and "\<forall>p \<in> set pool. layer' p < l"
    and "\<forall>p \<in> set pool. \<forall>q \<in> set pool.
           layer' p < layer' q \<longrightarrow> \<not> dominates d (distances' q) (distances' p)"
  shows "\<exists>pool1 outlier1 l1. initNeighbor_loop emplace d pts pool outlier l = Inr (pool1, outlier1, l1)
    \<and> (\<forall>p \<in> set pool1. \<forall>q \<in> set pool1.
           layer' p < layer' q \<longrightarrow> \<not> dominates d (distances' q) (distances' p))"
  using assms
proof (induction emplace d pts pool outlier l rule: initNeighbor_loop.induct)
  case (1 emplace d pts pool outlier l)
  note copies = "1.prems"(1) and dist = "1.prems"(2) and dims = "1.prems"(3)
    and clear = "1.prems"(4) and below = "1.prems"(5) and mono = "1.prems"(6)
  show ?case
  proof (cases "pts = []")
    case True
    with mono show ?thesis
      by (simp add: initNeighbor_loop.simps [of emplace d "[]"])
  next
    case False
    from findSkyline_step [OF dist dims False]
    obtain sky rem where fs: "findSkyline d pts [] [] = Inr (sky, rem)"
      and sky: "set sky \<subseteq> set pts" and rem: "set rem \<subseteq> set pts"
      and dist': "distinct (map id' rem)"
      and front: "\<forall>p \<in> set sky. \<forall>q \<in> set pts. \<not> dominates d (distances' q) (distances' p)"
      by blast
    let ?new = "map (\<lambda>point. emplace point True l) sky"
    let ?pool = "pool @ ?new"
    have new: "\<exists>x \<in> set sky. distances' p = distances' x \<and> layer' p = l" if "p \<in> set ?new" for p
      using that copies by (auto simp: emplace_copies_def)
    have dims': "\<forall>p \<in> set rem. length (distances' p) = d"
      using dims rem by blast
    have clear': "\<forall>p \<in> set ?pool. \<forall>q \<in> set rem. \<not> dominates d (distances' q) (distances' p)"
    proof (intro ballI)
      fix p q assume p: "p \<in> set ?pool" and q: "q \<in> set rem"
      from q rem have q': "q \<in> set pts" by blast
      from p consider "p \<in> set pool" | "p \<in> set ?new" by auto
      then show "\<not> dominates d (distances' q) (distances' p)"
      proof cases
        case 1
        with clear q' show ?thesis by blast
      next
        case 2
        from new [OF this] front q' show ?thesis by metis
      qed
    qed
    have below': "\<forall>p \<in> set ?pool. layer' p < l + 1"
    proof
      fix p assume "p \<in> set ?pool"
      then consider "p \<in> set pool" | "p \<in> set ?new" by auto
      then show "layer' p < l + 1"
      proof cases
        case 1
        with below show ?thesis by force
      next
        case 2
        from new [OF this] show ?thesis by auto
      qed
    qed
    have mono': "\<forall>p \<in> set ?pool. \<forall>q \<in> set ?pool.
        layer' p < layer' q \<longrightarrow> \<not> dominates d (distances' q) (distances' p)"
    proof (intro ballI impI)
      fix p q assume p: "p \<in> set ?pool" and q: "q \<in> set ?pool" and less: "layer' p < layer' q"
      from q consider "q \<in> set pool" | "q \<in> set ?new" by auto
      then show "\<not> dominates d (distances' q) (distances' p)"
      proof cases
        case 1
        with below have "layer' q < l" by blast
        with less have "layer' p < l" by simp
        with p new have "p \<in> set pool" by (metis Un_iff less_irrefl set_append)
        with mono 1 less show ?thesis by blast
      next
        case 2
        from new [OF this] obtain x where x: "x \<in> set sky" "distances' q = distances' x"
          "layer' q = l" by blast
        with less have "layer' p < l" by simp
        with p new have "p \<in> set pool" by (metis Un_iff less_irrefl set_append)
        with clear x sky show ?thesis by (metis subsetD)
      qed
    qed
    from "1.IH" [OF False fs refl copies dist' dims' clear' below' mono'] False fs
    show ?thesis
      by (simp add: initNeighbor_loop.simps [of emplace d pts])
  qed
qed

text \<open>
  The outlier vector after the loop, when the loop ran at least once: it is the last
  frontier, and the pool holds a point for each of its points with the layer \<open>l1 - 1\<close>.
\<close>

lemma initNeighbor_loop_outlier:
  assumes "emplace_copies emplace"
    and "initNeighbor_loop emplace d pts pool outlier l = Inr (pool1, outlier1, l1)"
    and "pts \<noteq> []"
  shows "outlier1 \<noteq> [] \<and> key ` set outlier1 \<subseteq> key ` set pool1
    \<and> ((\<forall>p \<in> set pool. layer' p < l) \<longrightarrow>
         (\<forall>p \<in> set pool1. layer' p < l1)
         \<and> key ` set outlier1 = key ` {p \<in> set pool1. layer' p = l1 - 1})"
  using assms
proof (induction emplace d pts pool outlier l rule: initNeighbor_loop.induct)
  case (1 emplace d pts pool outlier l)
  note copies = "1.prems"(1) and run = "1.prems"(2) and ne = "1.prems"(3)
  from run ne obtain sky rem where fs: "findSkyline d pts [] [] = Inr (sky, rem)"
    and rec: "initNeighbor_loop emplace d rem (pool @ map (\<lambda>point. emplace point True l) sky)
                sky (l + 1) = Inr (pool1, outlier1, l1)"
    by (auto simp: initNeighbor_loop.simps [of emplace d pts] split: sum.splits)
  let ?new = "map (\<lambda>point. emplace point True l) sky"
  have key_new: "key ` set ?new = key ` set sky"
    using copies by (force simp: emplace_copies_def key_def image_iff)
  have layer_new: "\<forall>p \<in> set ?new. layer' p = l"
    using copies by (auto simp: emplace_copies_def)
  show ?case
  proof (cases "rem = []")
    case True
    with rec have res: "pool1 = pool @ ?new" "outlier1 = sky" "l1 = l + 1"
      by (auto simp: initNeighbor_loop.simps [of emplace d "[]"])
    have "{p \<in> set pool1. layer' p = l} = set ?new" if "\<forall>p \<in> set pool. layer' p < l"
      using that layer_new unfolding res by auto
    then have "key ` set outlier1 = key ` {p \<in> set pool1. layer' p = l1 - 1}"
      if "\<forall>p \<in> set pool. layer' p < l"
      using that key_new res by simp
    moreover have "\<forall>p \<in> set pool1. layer' p < l1" if "\<forall>p \<in> set pool. layer' p < l"
      using that layer_new unfolding res by fastforce
    moreover have "outlier1 \<noteq> []"
      using findSkyline_shrinks(1) [OF fs ne] res by simp
    moreover have "key ` set outlier1 \<subseteq> key ` set pool1"
      using key_new res by auto
    ultimately show ?thesis by blast
  next
    case False
    note ih = "1.IH" [OF ne fs refl copies rec False]
    have "\<forall>p \<in> set (pool @ ?new). layer' p < l + 1" if "\<forall>p \<in> set pool. layer' p < l"
      using that layer_new by fastforce
    with ih show ?thesis by blast
  qed
qed

text \<open>The outlier vector after the loop is the last frontier of the peeling.\<close>

lemma initNeighbor_loop_last_frontier:
  assumes "initNeighbor_loop emplace d pts pool outlier l = Inr (pool1, outlier1, l1)"
    and "pts \<noteq> []"
  shows "peel d pts \<noteq> [] \<and> outlier1 = last (peel d pts)"
  using assms
proof (induction emplace d pts pool outlier l rule: initNeighbor_loop.induct)
  case (1 emplace d pts pool outlier l)
  note run = "1.prems"(1) and ne = "1.prems"(2)
  from run ne obtain sky rem where fs: "findSkyline d pts [] [] = Inr (sky, rem)"
    and rec: "initNeighbor_loop emplace d rem (pool @ map (\<lambda>point. emplace point True l) sky)
                sky (l + 1) = Inr (pool1, outlier1, l1)"
    by (auto simp: initNeighbor_loop.simps [of emplace d pts] split: sum.splits)
  from fs ne have layers: "peel d pts = sky # peel d rem"
    by (simp add: peel.simps [of d pts])
  show ?case
  proof (cases "rem = []")
    case True
    with rec have "outlier1 = sky"
      by (auto simp: initNeighbor_loop.simps [of emplace d "[]"])
    with True layers show ?thesis
      by (simp add: peel.simps [of d "[]"])
  next
    case False
    from "1.IH" [OF ne fs refl rec False] layers show ?thesis
      by simp
  qed
qed

lemma highest_layer:
  assumes ne: "outlier1 \<noteq> []" and below: "\<forall>p \<in> set pool1. layer' p < l1"
    and eq: "key ` set outlier1 = key ` {p \<in> set pool1. layer' p = l1 - 1}"
  shows "key ` set outlier1 = key ` {p \<in> set pool1. \<forall>q \<in> set pool1. layer' q \<le> layer' p}"
proof -
  from ne eq obtain p0 where p0: "p0 \<in> set pool1" "layer' p0 = l1 - 1"
    by (cases outlier1) auto
  have "(\<forall>q \<in> set pool1. layer' q \<le> layer' p) \<longleftrightarrow> layer' p = l1 - 1"
    if p: "p \<in> set pool1" for p
  proof
    assume "\<forall>q \<in> set pool1. layer' q \<le> layer' p"
    with p0 have "l1 - 1 \<le> layer' p" by auto
    moreover from p below have "layer' p < l1" by blast
    ultimately show "layer' p = l1 - 1" by linarith
  next
    assume top: "layer' p = l1 - 1"
    show "\<forall>q \<in> set pool1. layer' q \<le> layer' p"
    proof
      fix q assume "q \<in> set pool1"
      with below have "layer' q < l1" by blast
      with top show "layer' q \<le> layer' p" by linarith
    qed
  qed
  then have "{p \<in> set pool1. \<forall>q \<in> set pool1. layer' q \<le> layer' p}
      = {p \<in> set pool1. layer' p = l1 - 1}"
    by blast
  with eq show ?thesis by simp
qed

lemma key_subset_ids:
  assumes "x \<in> set outlier1" and "key ` set outlier1 \<subseteq> key ` set pool1"
  shows "id' x \<in> id' ` set pool1"
proof -
  from assms have "key x \<in> key ` set pool1" by blast
  then show ?thesis by (auto simp: key_def)
qed

subsection \<open>From the loops to the operations\<close>

lemma initNeighbor_gps_Inr:
  "initNeighbor_gps s ps = Inr s1 \<longleftrightarrow>
     (\<exists>pool1 outlier1 l1.
        initNeighbor_loop emplace_gps (unat (num_dimensions' s)) ps (pool' s) (outlier' s) 0
          = Inr (pool1, outlier1, l1)
        \<and> s1 = s\<lparr>pool' := std_sort pool1, outlier' := outlier1, num_layer' := of_int l1,
                  nn_new' := [], nn_old' := [], rnn_new' := [], rnn_old' := []\<rparr>)"
  by (auto simp: initNeighbor_gps_def split: sum.splits)

lemma initNeighbor_deg_Inr:
  "initNeighbor_deg s ps = Inr s1 \<longleftrightarrow>
     (\<exists>pool1 outlier1 l1.
        initNeighbor_loop (emplace_deg (deg_num_weight_combinations' s))
          (unat (deg_num_dimensions' s)) ps (deg_pool' s) (deg_outlier' s) 0
          = Inr (pool1, outlier1, l1)
        \<and> s1 = s\<lparr>deg_pool' := std_sort pool1, deg_outlier' := outlier1,
                  deg_num_layer' := of_int l1\<rparr>)"
  by (auto simp: initNeighbor_deg_def split: sum.splits)

lemma updateNeighbor_gps_Inr:
  "updateNeighbor_gps s = Inr s1 \<longleftrightarrow>
     (\<exists>pool1 outlier1 l1.
        updateNeighbor_loop emplace_gps (unat (num_dimensions' s)) (unat (M' s))
          (std_sort (pool' s)) [] (outlier' s) 0 = Inr (pool1, outlier1, l1)
        \<and> s1 = s\<lparr>pool' := pool1, outlier' := outlier1, num_layer' := of_int l1\<rparr>)"
  by (auto simp: updateNeighbor_gps_def split: sum.splits)

lemma updateNeighbor_deg_Inr:
  "updateNeighbor_deg s = Inr s1 \<longleftrightarrow>
     (\<exists>pool1 outlier1 l1.
        updateNeighbor_loop (emplace_deg (deg_num_weight_combinations' s))
          (unat (deg_num_dimensions' s)) (unat (deg_M' s))
          (std_sort (deg_pool' s)) [] (deg_outlier' s) 0 = Inr (pool1, outlier1, l1)
        \<and> s1 = s\<lparr>deg_pool' := pool1, deg_outlier' := outlier1, deg_num_layer' := of_int l1\<rparr>)"
  by (auto simp: updateNeighbor_deg_def split: sum.splits)

text \<open>The pool after \<^verbatim>\<open>updateNeighbor\<close> holds no id that the pool before did not hold.\<close>

lemma updateNeighbor_gps_ids:
  assumes "updateNeighbor_gps s = Inr s1"
  shows "id' ` set (pool' s1) \<subseteq> id' ` set (pool' s)"
  using assms updateNeighbor_loop_ids [OF emplace_gps_copies]
  unfolding updateNeighbor_gps_Inr by (fastforce simp: set_std_sort)

lemma updateNeighbor_deg_ids:
  assumes "updateNeighbor_deg s = Inr s1"
  shows "id' ` set (deg_pool' s1) \<subseteq> id' ` set (deg_pool' s)"
  using assms updateNeighbor_loop_ids [OF emplace_deg_copies]
  unfolding updateNeighbor_deg_Inr by (fastforce simp: set_std_sort)

text \<open>Unfolding the operations on concrete inputs.\<close>

lemmas eval_simps = initNeighbor_loop.simps updateNeighbor_loop.simps
  updateNeighbor_sq_loop.simps findSkyline_def upt_rec emplace_gps_def emplace_deg_def
  MultiVectorDEGNeighbor_def operator_less_def

subsection \<open>The loop of \<^verbatim>\<open>updateNeighbor(int &nk)\<close>\<close>









subsection \<open>The pool of a skyline queue holds flagged points only\<close>



section \<open>Properties of the pruning bitmap\<close>

subsection \<open>Single bits of a word\<close>

lemma test_set_same:
  fixes w :: "64 word"
  assumes "n < 64"
  shows "(w OR push_bit n 1) AND push_bit n 1 \<noteq> 0"
proof -
  have "bit (w OR push_bit n 1) n"
    using assms by (simp add: bit_simps)
  then show ?thesis
    unfolding bit_iff_and_push_bit_not_eq_0 .
qed

lemma test_clear_same:
  fixes w :: "64 word"
  shows "(w AND NOT (push_bit n 1)) AND push_bit n 1 = 0"
proof -
  have "\<not> bit (w AND NOT (push_bit n 1)) n"
    by (simp add: bit_simps)
  then show ?thesis
    unfolding bit_iff_and_push_bit_not_eq_0 by simp
qed

lemma test_set_other:
  fixes w :: "64 word"
  assumes "m \<noteq> n"
  shows "((w OR push_bit n 1) AND push_bit m 1 \<noteq> 0) \<longleftrightarrow> (w AND push_bit m 1 \<noteq> 0)"
proof -
  have "bit (w OR push_bit n 1) m \<longleftrightarrow> bit w m"
    using assms by (auto simp: bit_simps dest: bit_imp_le_length)
  then show ?thesis
    unfolding bit_iff_and_push_bit_not_eq_0 .
qed

lemma test_clear_other:
  fixes w :: "64 word"
  assumes "m \<noteq> n"
  shows "((w AND NOT (push_bit n 1)) AND push_bit m 1 \<noteq> 0) \<longleftrightarrow> (w AND push_bit m 1 \<noteq> 0)"
proof -
  have "bit (w AND NOT (push_bit n 1)) m \<longleftrightarrow> bit w m"
    using assms by (auto simp: bit_simps dest: bit_imp_le_length)
  then show ?thesis
    unfolding bit_iff_and_push_bit_not_eq_0 .
qed

subsection \<open>The bitmap of a constructed neighbour\<close>

lemma bitmap_fits_constructor:
  assumes "K + 63 < 2 ^ 64"
  shows "bitmap_fits K (MultiVectorDEGNeighbor ident ds K f l)"
  using assms by (simp add: bitmap_fits_def MultiVectorDEGNeighbor_def)

lemma bitmap_fits_setPruned:
  assumes "bitmap_fits K p"
  shows "bitmap_fits K (case setPruned p i b of Inl (e, p') \<Rightarrow> p' | Inr p' \<Rightarrow> p')"
  using assms by (simp add: bitmap_fits_def setPruned_def Let_def)

lemma bitmap_fits_calls:
  assumes "bitmap_fits K p"
  shows "bitmap_fits K (setPruned_calls p calls)"
  using assms
proof (induction calls arbitrary: p)
  case Nil
  then show ?case by simp
next
  case (Cons c calls)
  obtain i b where c: "c = (i, b)" by (cases c)
  from bitmap_fits_setPruned [OF Cons.prems, of i b] Cons.IH show ?case
    unfolding c by (auto split: sum.splits)
qed

lemma word_index_in_range:
  fixes i K :: nat
  assumes "i < K"
  shows "i div 64 < (K + 63) div 64"
  using assms by (simp add: div_less_iff_less_mult)

lemma isPruned_eq:
  assumes "bitmap_fits K p" and "j < K"
  shows "isPruned p j = Inr (bit (pruning_bitmap' p ! (j div 64)) (j mod 64))"
  using assms
  by (simp add: isPruned_def bitmap_fits_def Let_def bit_iff_and_push_bit_not_eq_0)

lemma setPruned_eq:
  assumes "bitmap_fits K p" and "i < K"
  shows "setPruned p i b = Inr (p\<lparr>pruning_bitmap' := (pruning_bitmap' p)
           [i div 64 := (if b then pruning_bitmap' p ! (i div 64) OR push_bit (i mod 64) 1
                         else pruning_bitmap' p ! (i div 64) AND NOT (push_bit (i mod 64) 1))]\<rparr>)"
  using assms by (simp add: setPruned_def bitmap_fits_def Let_def)

lemma setPruned_roundtrip:
  assumes fits: "bitmap_fits K p" and i: "i < K" and set: "setPruned p i b = Inr p'"
  shows "isPruned p' i = Inr b"
    and "j < K \<Longrightarrow> j \<noteq> i \<Longrightarrow> isPruned p' j = isPruned p j"
proof -
  let ?w = "pruning_bitmap' p ! (i div 64)"
  let ?v = "if b then ?w OR push_bit (i mod 64) 1 else ?w AND NOT (push_bit (i mod 64) 1)"
  from set have p': "p' = p\<lparr>pruning_bitmap' := (pruning_bitmap' p)[i div 64 := ?v]\<rparr>"
    unfolding setPruned_eq [OF fits i] by simp
  have fits': "bitmap_fits K p'"
    using fits by (simp add: p' bitmap_fits_def)
  have len: "i div 64 < length (pruning_bitmap' p)"
    using fits word_index_in_range [OF i] by (simp add: bitmap_fits_def)
  have "bit ?v (i mod 64) \<longleftrightarrow> b"
    by (simp add: bit_simps)
  with len show "isPruned p' i = Inr b"
    unfolding isPruned_eq [OF fits' i] by (simp add: p')
  show "isPruned p' j = isPruned p j" if j: "j < K" and ne: "j \<noteq> i"
  proof (cases "j div 64 = i div 64")
    case True
    with ne have "j mod 64 \<noteq> i mod 64"
      by (metis div_mult_mod_eq)
    then have "bit ?v (j mod 64) \<longleftrightarrow> bit ?w (j mod 64)"
      by (auto simp: bit_simps)
    with len True show ?thesis
      unfolding isPruned_eq [OF fits' j] isPruned_eq [OF fits j] by (simp add: p')
  next
    case False
    then show ?thesis
      unfolding isPruned_eq [OF fits' j] isPruned_eq [OF fits j] by (simp add: p')
  qed
qed

section \<open>Properties of the weight lattice\<close>

subsection \<open>The rounding error\<close>

lemma round_even_err: "\<bar>of_int (round_even y) - y\<bar> \<le> 1 / 2"
proof -
  have "of_int \<lfloor>y\<rfloor> \<le> y" "y < of_int \<lfloor>y\<rfloor> + 1"
    by linarith+
  then show ?thesis
    unfolding round_even_def Let_def by (auto simp: abs_le_iff)
qed

lemma bitlen_le: "n < 2 ^ k \<Longrightarrow> bitlen n \<le> k"
proof (induction k arbitrary: n)
  case 0
  then show ?case by (simp add: bitlen.simps)
next
  case (Suc k)
  show ?case
  proof (cases "n = 0")
    case True
    then show ?thesis by (simp add: bitlen.simps)
  next
    case False
    from Suc.prems have "n div 2 < 2 ^ k" by simp
    from Suc.IH [OF this] False show ?thesis
      by (subst bitlen.simps) simp
  qed
qed

lemma exponent_le:
  assumes "\<bar>x\<bar> < 16"
  shows "exponent x \<le> 3"
proof (cases "\<bar>x\<bar> \<ge> 1")
  case True
  from assms have "\<lfloor>\<bar>x\<bar>\<rfloor> < 16" by linarith
  then have "nat \<lfloor>\<bar>x\<bar>\<rfloor> < 16" by linarith
  then have "nat \<lfloor>\<bar>x\<bar>\<rfloor> < 2 ^ 4" by simp
  from bitlen_le [OF this] True show ?thesis
    by (simp add: exponent_def)
next
  case False
  then show ?thesis
    by (simp add: exponent_def)
qed

lemma pow2_pos: "0 < pow2 e"
  by (simp add: pow2_def)

lemma pow2_le_20:
  assumes "e \<le> - 20"
  shows "pow2 e \<le> 1 / 2 ^ 20"
proof -
  from assms have "(2 :: rat) ^ 20 \<le> 2 ^ nat (- e)"
    by (intro power_increasing) auto
  with assms show ?thesis
    by (simp add: pow2_def frac_le)
qed

text \<open>Below 16 the rounding error is at most \<open>2\<^sup>-\<^sup>2\<^sup>1\<close>.\<close>

lemma fl32_err:
  assumes "\<bar>x\<bar> < 16"
  shows "\<bar>fl32 x - x\<bar> \<le> 1 / 2097152"
proof (cases "x = 0")
  case True
  then show ?thesis by (simp add: fl32_def)
next
  case False
  define u where "u = pow2 (exponent x - 23)"
  have "exponent x - 23 \<le> - 20"
    using exponent_le [OF assms] by linarith
  then have "u \<le> 1 / 2 ^ 20"
    unfolding u_def by (rule pow2_le_20)
  with pow2_pos [of "exponent x - 23"] have u: "0 < u" "u \<le> 1 / 2 ^ 20"
    by (simp_all add: u_def)
  have "fl32 x - x = (of_int (round_even (x / u)) - x / u) * u"
    using False u(1) by (simp add: fl32_def u_def [symmetric] Let_def algebra_simps)
  then have "\<bar>fl32 x - x\<bar> = \<bar>of_int (round_even (x / u)) - x / u\<bar> * u"
    using u(1) by (simp add: abs_mult)
  also have "\<dots> \<le> (1 / 2) * u"
    using round_even_err u(1) by (intro mult_right_mono) auto
  also have "\<dots> \<le> (1 / 2) * (1 / 2 ^ 20)"
    using u(2) by (intro mult_left_mono) auto
  finally show ?thesis by simp
qed

lemma fl32_bounds:
  assumes "- 16 < x" and "x < 16"
  shows "x - 1 / 2097152 \<le> fl32 x" and "fl32 x \<le> x + 1 / 2097152"
proof -
  from assms have "\<bar>x\<bar> < 16" by linarith
  note fl32_err [OF this]
  then show "x - 1 / 2097152 \<le> fl32 x" and "fl32 x \<le> x + 1 / 2097152"
    by linarith+
qed

lemma std_round_near:
  assumes "\<bar>x - of_int k\<bar> < 1 / 2"
  shows "std_round x = of_int k"
proof (cases "x \<ge> 0")
  case True
  from assms have "of_int k \<le> x + 1 / 2" "x + 1 / 2 < of_int k + 1"
    by linarith+
  then have "\<lfloor>x + 1 / 2\<rfloor> = k"
    by (rule floor_unique)
  with True show ?thesis by (simp add: std_round_def)
next
  case False
  from assms have "of_int (- k) \<le> - x + 1 / 2" "- x + 1 / 2 < of_int (- k) + 1"
    unfolding of_int_minus by linarith+
  then have "\<lfloor>- x + 1 / 2\<rfloor> = - k"
    by (rule floor_unique)
  with False show ?thesis by (simp add: std_round_def)
qed

subsection \<open>The numbers the loops see\<close>

lemma WEIGHT_STEP_bounds:
  "1 / 10 - 1 / 2097152 \<le> WEIGHT_STEP" "WEIGHT_STEP \<le> 1 / 10 + 1 / 2097152"
  unfolding WEIGHT_STEP_def by (rule fl32_bounds; simp)+

lemma lit_0_001_bounds:
  "1 / 1000 - 1 / 2097152 \<le> lit_0_001" "lit_0_001 \<le> 1 / 1000 + 1 / 2097152"
  unfolding lit_0_001_def by (rule fl32_bounds; simp)+

lemma lit_1_001_bounds:
  "1001 / 1000 - 1 / 2097152 \<le> lit_1_001" "lit_1_001 \<le> 1001 / 1000 + 1 / 2097152"
  unfolding lit_1_001_def by (rule fl32_bounds; simp)+

lemma w_iter_bounds:
  assumes "i \<le> 11"
  shows "of_nat i / 10 - of_nat i / 1048576 \<le> w_iter i
    \<and> w_iter i \<le> of_nat i / 10 + of_nat i / 1048576"
  using assms
proof (induction i)
  case 0
  then show ?case by simp
next
  case (Suc i)
  then have i: "(of_nat i :: rat) \<le> 10" and "0 \<le> (of_nat i :: rat)"
    by simp_all
  with Suc have lo: "of_nat i / 10 - of_nat i / 1048576 \<le> w_iter i"
    and hi: "w_iter i \<le> of_nat i / 10 + of_nat i / 1048576"
    by simp_all
  note c = WEIGHT_STEP_bounds
  have "- 16 < w_iter i + WEIGHT_STEP" "w_iter i + WEIGHT_STEP < 16"
    using lo hi c i \<open>0 \<le> of_nat i\<close> by linarith+
  from fl32_bounds [OF this] lo hi c show ?case
    unfolding w_iter.simps fadd_def of_nat_Suc by (simp add: field_simps) 
qed

lemma w_iter_near:
  assumes "i \<le> 11"
  shows "of_nat i / 10 - 1 / 65536 \<le> w_iter i" "w_iter i \<le> of_nat i / 10 + 1 / 65536"
proof -
  from assms have "(of_nat i :: rat) \<le> 11" "0 \<le> (of_nat i :: rat)"
    by simp_all
  with w_iter_bounds [OF assms]
  show "of_nat i / 10 - 1 / 65536 \<le> w_iter i" "w_iter i \<le> of_nat i / 10 + 1 / 65536"
    by linarith+
qed

lemma tenth_bounds:
  assumes "k \<le> 10"
  shows "of_nat k / 10 - 1 / 2097152 \<le> tenth k" "tenth k \<le> of_nat k / 10 + 1 / 2097152"
proof -
  from assms have "(of_nat k :: rat) \<le> 10" "0 \<le> (of_nat k :: rat)"
    by simp_all
  then have "- 16 < (of_nat k :: rat) / 10" "(of_nat k :: rat) / 10 < 16"
    by linarith+
  from fl32_bounds [OF this]
  show "of_nat k / 10 - 1 / 2097152 \<le> tenth k" "tenth k \<le> of_nat k / 10 + 1 / 2097152"
    unfolding tenth_def by simp_all
qed

text \<open>
  Rounding ten times a number that is close to \<open>k / 10\<close> gives \<open>k\<close>, so the rounded
  weight is the \<^verbatim>\<open>float\<close> next to \<open>k / 10\<close>.
\<close>

lemma rounded_tenth:
  assumes "k \<le> 11" and "of_nat k / 10 - 1 / 1024 \<le> x" and "x \<le> of_nat k / 10 + 1 / 1024"
  shows "fdiv (std_round (fmul x 10)) 10 = tenth k"
proof -
  from assms(1) have k: "(of_nat k :: rat) \<le> 11" "0 \<le> (of_nat k :: rat)"
    by simp_all
  have "- 16 < x * 10" "x * 10 < 16"
    using assms(2,3) k by linarith+
  from fl32_bounds [OF this] assms(2,3)
  have "\<bar>fmul x 10 - of_int (int k)\<bar> < 1 / 2"
    unfolding fmul_def abs_less_iff of_int_of_nat_eq by (intro conjI) linarith+
  then have "std_round (fmul x 10) = of_int (int k)"
    by (rule std_round_near)
  then show ?thesis
    by (simp add: fdiv_def tenth_def)
qed

subsection \<open>The running sum\<close>

lemma near_sum_crude:
  assumes "near_sum dim_idx s cs"
  shows "of_nat s / 10 - 1 / 65536 \<le> cs" "cs \<le> of_nat s / 10 + 1 / 65536"
proof -
  from assms have "(of_nat dim_idx :: rat) \<le> 7" "0 \<le> (of_nat dim_idx :: rat)"
    by (simp_all add: near_sum_def)
  with assms show "of_nat s / 10 - 1 / 65536 \<le> cs" "cs \<le> of_nat s / 10 + 1 / 65536"
    unfolding near_sum_def by linarith+
qed

lemma tenths_le:
  assumes "s + i \<le> n"
  shows "(of_nat s :: rat) + of_nat i \<le> of_nat n" "0 \<le> (of_nat s :: rat)" "0 \<le> (of_nat i :: rat)"
proof -
  from assms have "(of_nat (s + i) :: rat) \<le> of_nat n"
    by (simp only: of_nat_le_iff)
  then show "(of_nat s :: rat) + of_nat i \<le> of_nat n" by simp
qed simp_all

lemma guard_true:
  assumes "near_sum dim_idx s cs" and "s + i \<le> 10"
  shows "w_iter i \<le> lit_1_001 \<and> fadd cs (w_iter i) \<le> lit_1_001"
proof -
  note t = tenths_le [OF assms(2), simplified]
  from assms(2) have i: "i \<le> 11" by simp
  note w = w_iter_near [OF i] and c = near_sum_crude [OF assms(1)] and l = lit_1_001_bounds
  have "- 16 < cs + w_iter i" "cs + w_iter i < 16"
    using w c t by linarith+
  from fl32_bounds [OF this] w c t l show ?thesis
    unfolding fadd_def by (intro conjI; linarith)
qed

lemma guard_false:
  assumes "near_sum dim_idx s cs" and "s + i = 11"
  shows "\<not> fadd cs (w_iter i) \<le> lit_1_001"
proof -
  from assms(2) have "(of_nat (s + i) :: rat) = 11"
    by simp
  then have t: "(of_nat s :: rat) + of_nat i = 11" "0 \<le> (of_nat s :: rat)" "0 \<le> (of_nat i :: rat)"
    by simp_all
  from assms(2) have i: "i \<le> 11" by simp
  note w = w_iter_near [OF i] and c = near_sum_crude [OF assms(1)] and l = lit_1_001_bounds
  have "- 16 < cs + w_iter i" "cs + w_iter i < 16"
    using w c t by linarith+
  from fl32_bounds [OF this] w c t l show ?thesis
    unfolding fadd_def by linarith
qed

lemma remaining_ok:
  assumes "near_sum dim_idx s cs" and "s + i \<le> 10" and "1 \<le> m" and "m \<le> 7"
  shows "fsub 1 (fadd cs (tenth i)) \<ge> fsub 0 lit_0_001
    \<and> fsub 1 (fadd cs (tenth i)) \<le> fadd (fmul (fl32 (of_nat m)) 1) lit_0_001"
proof -
  note t = tenths_le [OF assms(2), simplified]
  from assms(2) have i: "i \<le> 10" by simp
  note x = tenth_bounds [OF i] and c = near_sum_crude [OF assms(1)] and l = lit_0_001_bounds
  from assms(3,4) have m: "1 \<le> (of_nat m :: rat)" "(of_nat m :: rat) \<le> 7"
    by simp_all
  have "- 16 < cs + tenth i" "cs + tenth i < 16"
    using x c t by linarith+
  note a = fl32_bounds [OF this]
  have "- 16 < 1 - fl32 (cs + tenth i)" "1 - fl32 (cs + tenth i) < 16"
    using a x c t by linarith+
  note b = fl32_bounds [OF this]
  have "- 16 < 0 - lit_0_001" "0 - lit_0_001 < 16"
    using l by linarith+
  note z = fl32_bounds [OF this]
  have "- 16 < (of_nat m :: rat)" "(of_nat m :: rat) < 16"
    using m by linarith+
  note p = fl32_bounds [OF this]
  have "- 16 < fl32 (of_nat m) * 1" "fl32 (of_nat m) * 1 < 16"
    using p m by linarith+
  note q = fl32_bounds [OF this]
  have "- 16 < fl32 (fl32 (of_nat m) * 1) + lit_0_001" "fl32 (fl32 (of_nat m) * 1) + lit_0_001 < 16"
    using q p m l by linarith+
  note r = fl32_bounds [OF this]
  from a b z p q r x c t l m show ?thesis
    unfolding fadd_def fsub_def fmul_def by (intro conjI; linarith)
qed

lemma near_sum_step:
  assumes "near_sum dim_idx s cs" and "dim_idx < 7" and "s + i \<le> 10"
  shows "near_sum (Suc dim_idx) (s + i) (fadd cs (tenth i))"
proof -
  note t = tenths_le [OF assms(3), simplified]
  from assms(3) have i: "i \<le> 10" by simp
  note x = tenth_bounds [OF i] and c = near_sum_crude [OF assms(1)]
  have "- 16 < cs + tenth i" "cs + tenth i < 16"
    using x c t by linarith+
  note a = fl32_bounds [OF this]
  from assms(1) have lo: "of_nat s / 10 - of_nat dim_idx / 1048576 \<le> cs"
    and hi: "cs \<le> of_nat s / 10 + of_nat dim_idx / 1048576"
    by (simp_all add: near_sum_def)
  have "of_nat (s + i) / 10 - of_nat (Suc dim_idx) / 1048576 \<le> fl32 (cs + tenth i)"
    and "fl32 (cs + tenth i) \<le> of_nat (s + i) / 10 + of_nat (Suc dim_idx) / 1048576"
    using a x lo hi unfolding of_nat_add of_nat_Suc add_divide_distrib by linarith+
  with assms(2,3) show ?thesis
    unfolding near_sum_def fadd_def by simp
qed

lemma last_ok:
  assumes "near_sum dim_idx s cs"
  shows "fsub 1 cs \<ge> - lit_0_001 \<and> fsub 1 cs \<le> lit_1_001"
    and "fdiv (std_round (fmul (fsub 1 cs) 10)) 10 = tenth (10 - s)"
    and "tenth (10 - s) \<ge> - lit_0_001 \<and> tenth (10 - s) \<le> lit_1_001"
proof -
  from assms have s: "s \<le> 10" by (simp add: near_sum_def)
  then have k: "(of_nat (10 - s) :: rat) = 10 - of_nat s"
    by (simp add: of_nat_diff)
  from s have t: "(of_nat s :: rat) \<le> 10" "0 \<le> (of_nat s :: rat)"
    by simp_all
  note c = near_sum_crude [OF assms] and l0 = lit_0_001_bounds and l1 = lit_1_001_bounds
  have "- 16 < 1 - cs" "1 - cs < 16"
    using c t by linarith+
  note a = fl32_bounds [OF this]
  from a c t l0 l1 show "fsub 1 cs \<ge> - lit_0_001 \<and> fsub 1 cs \<le> lit_1_001"
    unfolding fsub_def by (intro conjI; linarith)
  have "of_nat (10 - s) / 10 - 1 / 1024 \<le> fsub 1 cs" "fsub 1 cs \<le> of_nat (10 - s) / 10 + 1 / 1024"
    using a c t unfolding fsub_def k diff_divide_distrib by linarith+
  then show "fdiv (std_round (fmul (fsub 1 cs) 10)) 10 = tenth (10 - s)"
    by (intro rounded_tenth) simp
  from tenth_bounds [of "10 - s"] t l0 l1
  show "tenth (10 - s) \<ge> - lit_0_001 \<and> tenth (10 - s) \<le> lit_1_001"
    unfolding k diff_divide_distrib by (intro conjI; simp; linarith)
qed

subsection \<open>What \<^verbatim>\<open>backtrack\<close> appends\<close>

lemma backtrack_last:
  assumes "dim_idx = n - 1"
  shows "backtrack n dim_idx cs rem None current result =
     (if fsub 1 cs \<ge> - lit_0_001 \<and> fsub 1 cs \<le> lit_1_001 then
        (if fdiv (std_round (fmul (fsub 1 cs) 10)) 10 \<ge> - lit_0_001
            \<and> fdiv (std_round (fmul (fsub 1 cs) 10)) 10 \<le> lit_1_001
         then Some (result @ [current @ [fdiv (std_round (fmul (fsub 1 cs) 10)) 10]])
         else Some result)
      else Some result)"
  using assms by (subst backtrack.simps) (simp add: Let_def)

lemma backtrack_enter:
  assumes "dim_idx \<noteq> n - 1"
  shows "backtrack n dim_idx cs rem None current result =
     backtrack n dim_idx cs rem (Some 0) current result"
  using assms by (subst backtrack.simps) simp

lemma backtrack_loop:
  "backtrack n dim_idx cs rem (Some w) current result =
     (if w \<le> lit_1_001 \<and> fadd cs w \<le> lit_1_001 then
        (if fsub 1 (fadd cs (fdiv (std_round (fmul w 10)) 10)) \<ge> fsub 0 lit_0_001
            \<and> fsub 1 (fadd cs (fdiv (std_round (fmul w 10)) 10))
                \<le> fadd (fmul (fl32 (of_nat (n - dim_idx - 1))) 1) lit_0_001
         then Option.bind
                (backtrack n (dim_idx + 1) (fadd cs (fdiv (std_round (fmul w 10)) 10))
                   (fsub 1 (fadd cs (fdiv (std_round (fmul w 10)) 10))) None
                   (current @ [fdiv (std_round (fmul w 10)) 10]) result)
                (\<lambda>result. backtrack n dim_idx cs rem (Some (fadd w WEIGHT_STEP)) current result)
         else backtrack n dim_idx cs rem (Some (fadd w WEIGHT_STEP)) current result)
      else Some result)"
  by (subst backtrack.simps) (simp add: Let_def)

lemma backtrack_enumerates:
  assumes "n \<le> 8" and "dim_idx + m = n" and "1 \<le> m" and "near_sum dim_idx s cs"
  shows "backtrack n dim_idx cs rem None current result =
     Some (result @ map (\<lambda>l. current @ map tenth l) (comps m (10 - s)))"
  using assms(2,3,4)
proof (induction m arbitrary: dim_idx s cs rem current result)
  case 0
  then show ?case by simp
next
  case (Suc m)
  note sum = Suc.prems(1) and near = Suc.prems(3) and deeper = Suc.IH
  show ?case
  proof (cases m)
    case 0
    with sum have last: "dim_idx = n - 1" by simp
    from last_ok [OF near] show ?thesis
      unfolding backtrack_last [OF last] 0 by simp
  next
    case (Suc m')
    with sum assms(1) have enter: "dim_idx \<noteq> n - 1" and depth: "dim_idx < 7"
      and left: "n - dim_idx - 1 = Suc m'"
      by simp_all
    from near have s: "s \<le> 10" by (simp add: near_sum_def)
    define r where "r = 10 - s"
    have loop: "backtrack n dim_idx cs rem (Some (w_iter i)) current result =
        Some (result @ concat (map (\<lambda>k. map (\<lambda>l. current @ map tenth (k # l))
                (comps (Suc m') (r - k))) [i..<Suc r]))"
      if "i \<le> Suc r" for i result
      using that
    proof (induction "Suc r - i" arbitrary: i result)
      case 0
      with s have "s + i = 11" and "i = Suc r"
        by (simp_all add: r_def)
      with guard_false [OF near this(1)] show ?case
        by (subst backtrack_loop) simp
    next
      case (Suc d)
      with s have i: "s + i \<le> 10" and ir: "i < Suc r" and nxt: "d = Suc r - Suc i" "Suc i \<le> Suc r"
        by (simp_all add: r_def)
      from i have "i \<le> 11" by simp
      note w = w_iter_near [OF this]
      have rounded: "fdiv (std_round (fmul (w_iter i) 10)) 10 = tenth i"
        using w \<open>i \<le> 11\<close> by (intro rounded_tenth) linarith+
      have inner: "backtrack n (dim_idx + 1) (fadd cs (tenth i)) rn None (current @ [tenth i]) result
          = Some (result @ map (\<lambda>l. (current @ [tenth i]) @ map tenth l) (comps (Suc m') (10 - (s + i))))"
        for rn
      proof -
        have "dim_idx + 1 + m = n" and "1 \<le> m"
          using sum \<open>m = Suc m'\<close> by simp_all
        moreover have "near_sum (dim_idx + 1) (s + i) (fadd cs (tenth i))"
          using near_sum_step [OF near depth i] by simp
        ultimately show ?thesis
          unfolding \<open>m = Suc m'\<close> [symmetric] by (rule deeper)
      qed
      have split: "[i..<Suc r] = i # [Suc i..<Suc r]"
        using ir by (simp add: upt_conv_Cons)
      have "10 - (s + i) = r - i"
        by (simp add: r_def)
      with guard_true [OF near i] remaining_ok [OF near i, of "Suc m'"] depth left sum
        \<open>m = Suc m'\<close> assms(1) show ?case
        unfolding backtrack_loop [of n dim_idx cs rem "w_iter i"] rounded inner split
        by (simp add: Suc.hyps(1) [OF nxt] flip: w_iter.simps(2))
    qed
    have flat: "map (\<lambda>l. current @ map tenth l) (comps (Suc m) (10 - s)) =
        concat (map (\<lambda>k. map (\<lambda>l. current @ map tenth (k # l))
          (comps (Suc m') (r - k))) [0..<Suc r])"
      unfolding \<open>m = Suc m'\<close> r_def by (simp add: map_concat comp_def del: upt_Suc)
    have "backtrack n dim_idx cs rem (Some (w_iter 0)) current result =
        Some (result @ concat (map (\<lambda>k. map (\<lambda>l. current @ map tenth (k # l))
                (comps (Suc m') (r - k))) [0..<Suc r]))"
      by (rule loop) simp
    then show ?thesis
      unfolding backtrack_enter [OF enter] flat by simp
  qed
qed

subsection \<open>Counting\<close>

lemma set_comps:
  assumes "1 \<le> m"
  shows "set (comps m r) = {l. length l = m \<and> sum_list l = r}"
  using assms
proof (induction m r rule: comps.induct)
  case (1 r)
  then show ?case by simp
next
  case (2 r)
  show ?case
  proof (intro set_eqI iffI)
    fix l assume "l \<in> {l. length l = Suc 0 \<and> sum_list l = r}"
    then show "l \<in> set (comps (Suc 0) r)"
      by (cases l) auto
  qed simp
next
  case (3 m r)
  have ih: "set (comps (Suc m) (r - k)) = {l. length l = Suc m \<and> sum_list l = r - k}"
    if "k \<le> r" for k
  proof -
    from that have "k \<in> set [0..<Suc r]" by auto
    from "3.IH" [OF this] show ?thesis by simp
  qed
  have "set (comps (Suc (Suc m)) r)
      = (\<Union>k \<in> set [0..<Suc r]. (#) k ` set (comps (Suc m) (r - k)))"
    by (simp del: upt_Suc)
  also have "\<dots> = (\<Union>k \<in> {..r}. (#) k ` set (comps (Suc m) (r - k)))"
  proof -
    have "set [0..<Suc r] = {..r}" by auto
    then show ?thesis by (simp only:)
  qed
  also have "\<dots> = (\<Union>k \<in> {..r}. (#) k ` {l. length l = Suc m \<and> sum_list l = r - k})"
    using ih by simp
  also have "\<dots> = {l. length l = Suc (Suc m) \<and> sum_list l = r}"
  proof (intro set_eqI iffI)
    fix l assume "l \<in> {l. length l = Suc (Suc m) \<and> sum_list l = r}"
    then obtain k l' where "l = k # l'" "length l' = Suc m" "k + sum_list l' = r"
      by (cases l) auto
    then have "k \<le> r" "l' \<in> {l. length l = Suc m \<and> sum_list l = r - k}"
      by auto
    with \<open>l = k # l'\<close>
    show "l \<in> (\<Union>k \<in> {..r}. (#) k ` {l. length l = Suc m \<and> sum_list l = r - k})"
      by blast
  qed auto
  finally show ?case .
qed

lemma tenth_inj:
  assumes "tenth j = tenth k" and "j \<le> 10" and "k \<le> 10"
  shows "j = k"
proof -
  from tenth_bounds [OF assms(2)] tenth_bounds [OF assms(3)] assms(1)
  have "(of_nat j :: rat) < of_nat k + 1" "(of_nat k :: rat) < of_nat j + 1"
    by linarith+
  then have "(of_nat j :: rat) < of_nat (k + 1)" "(of_nat k :: rat) < of_nat (j + 1)"
    by simp_all
  then have "j < k + 1" "k < j + 1"
    by (simp_all only: of_nat_less_iff)
  then show ?thesis by simp
qed

lemma map_tenth_inj:
  "inj_on (map tenth) {l. length l = m \<and> sum_list l = 10}"
proof (rule inj_on_mapI, rule inj_onI)
  fix j k
  assume "j \<in> \<Union> (set ` {l. length l = m \<and> sum_list l = 10})"
    and "k \<in> \<Union> (set ` {l. length l = m \<and> sum_list l = 10})" and eq: "tenth j = tenth k"
  then have "j \<le> 10" "k \<le> 10"
    by (auto dest: member_le_sum_list)
  with eq show "j = k" by (rule tenth_inj)
qed

lemma distinct_remdups_adj_sorted:
  fixes xs :: "'a::linorder list"
  assumes "sorted xs"
  shows "distinct (remdups_adj xs)"
  using assms
proof (induction xs rule: remdups_adj.induct)
  case (3 x y xs)
  show ?case
  proof (cases "x = y")
    case True
    with 3 show ?thesis by simp
  next
    case False
    with "3.prems" have "x \<notin> set (y # xs)"
      by auto
    with False 3 show ?thesis by simp
  qed
qed simp_all

text \<open>
  For two to eight dimensions the call returns, and it returns the sorted list of the
  \<^verbatim>\<open>float\<close> vectors that stand for the ways to distribute ten tenths.
\<close>

lemma generateWeightCombinations_eq:
  assumes "2 \<le> n" and "n \<le> 8"
  shows "generateWeightCombinations n
    = Some (remdups_adj (sort (map (map tenth) (comps n 10))))"
proof -
  have "near_sum 0 0 0"
    by (simp add: near_sum_def)
  from backtrack_enumerates [OF assms(2) _ _ this, of n 1 "[]" "[]"] assms
  show ?thesis
    by (simp add: generateWeightCombinations_def)
qed

lemma generateWeightCombinations_length:
  assumes "2 \<le> n" and "n \<le> 8"
  shows "\<exists>ws. generateWeightCombinations n = Some ws \<and> distinct ws
    \<and> set ws = map tenth ` {l. length l = n \<and> sum_list l = 10}
    \<and> length ws = (10 + n - 1) choose (n - 1)"
proof -
  let ?ys = "map (map tenth) (comps n 10)"
  let ?ws = "remdups_adj (sort ?ys)"
  from assms have n: "1 \<le> n" by simp
  have d: "distinct ?ws"
    by (intro distinct_remdups_adj_sorted) simp
  have s: "set ?ws = map tenth ` {l. length l = n \<and> sum_list l = 10}"
    by (simp add: set_comps [OF n])
  from d have "length ?ws = card (set ?ws)"
    by (simp only: distinct_card)
  also have "\<dots> = card {l :: nat list. length l = n \<and> sum_list l = 10}"
    unfolding s by (intro card_image map_tenth_inj)
  also have "\<dots> = (10 + n - 1) choose 10"
    by (rule card_length_sum_list)
  also have "\<dots> = (10 + n - 1) choose (n - 1)"
    using n by (subst binomial_symmetric) simp_all
  finally have "length ?ws = (10 + n - 1) choose (n - 1)" .
  with generateWeightCombinations_eq [OF assms] d s show ?thesis
    by blast
qed

section \<open>Claims about skyline extraction\<close>

text \<open>
  C5.  For an input whose ids are pairwise distinct and whose distance vectors all have
  length \<open>d\<close>, \<^verbatim>\<open>findSkyline\<close> returns normally, appends to the frontier output
  exactly the input points that no other input point dominates, appends every other
  input point to the remainder output, and every point appended to the remainder is
  dominated by a point appended to the frontier.
\<close>

theorem findSkyline_frontier_remainder:
  assumes "distinct (map id' points)"
    and "\<forall>p \<in> set points. length (distances' p) = d"
  shows "\<exists>F R. findSkyline d points skyline remain_points = Inr (skyline @ F, remain_points @ R)
    \<and> (\<forall>p \<in> set points. p \<in> set F \<longleftrightarrow>
          \<not> (\<exists>q \<in> set points. q \<noteq> p \<and> dominates d (distances' q) (distances' p)))
    \<and> (\<forall>p \<in> set points. p \<in> set R \<longleftrightarrow> p \<notin> set F)
    \<and> set F \<union> set R = set points
    \<and> (\<forall>r \<in> set R. \<exists>f \<in> set F. dominates d (distances' f) (distances' r))"
proof -
  let ?F = "filter (\<lambda>p. other_loop d p points) points"
  let ?R = "filter (\<lambda>p. \<not> other_loop d p points) points"
  have inj: "inj_on id' (set points)"
    using assms(1) by (simp add: distinct_map)
  have other: "other_loop d p points \<longleftrightarrow>
      \<not> (\<exists>q \<in> set points. q \<noteq> p \<and> dominates d (distances' q) (distances' p))"
    if "p \<in> set points" for p
  proof -
    have "id' q \<noteq> id' p \<longleftrightarrow> q \<noteq> p" if "q \<in> set points" for q
      using inj that \<open>p \<in> set points\<close> by (auto dest: inj_onD)
    then show ?thesis
      unfolding other_loop_eq by blast
  qed
  have res: "findSkyline d points skyline remain_points = Inr (skyline @ ?F, remain_points @ ?R)"
    using assms(2) by (simp add: findSkyline_eq)
  have cover: "\<exists>f \<in> set ?F. dominates d (distances' f) (distances' r)" if "r \<in> set ?R" for r
  proof -
    from that obtain q where "q \<in> set points" "dominates d (distances' q) (distances' r)"
      unfolding other_loop_eq by auto
    from minimal_dominator [of "set points" q d distances' "distances' r", OF finite_set this]
    obtain m where "m \<in> set points" "dominates d (distances' m) (distances' r)"
      "\<forall>x \<in> set points. \<not> dominates d (distances' x) (distances' m)" by blast
    then show ?thesis
      unfolding other_loop_eq by auto
  qed
  have "\<forall>p \<in> set points. p \<in> set ?F \<longleftrightarrow>
          \<not> (\<exists>q \<in> set points. q \<noteq> p \<and> dominates d (distances' q) (distances' p))"
    using other by simp
  moreover have "\<forall>p \<in> set points. p \<in> set ?R \<longleftrightarrow> p \<notin> set ?F"
    by simp
  moreover have "set ?F \<union> set ?R = set points"
    by auto
  ultimately show ?thesis
    using res cover by blast
qed

text \<open>The scenario of the specification: five points in two dimensions.\<close>

theorem findSkyline_frontier_remainder_witness:
  "distinct (map id' scenario_points)
   \<and> list_all (\<lambda>p. length (distances' p) = 2) scenario_points
   \<and> findSkyline 2 scenario_points [] []
       = Inr ([\<lparr>id' = 1, distances' = [5, 30], flag = True, layer' = 0\<rparr>,
               \<lparr>id' = 2, distances' = [15, 10], flag = True, layer' = 0\<rparr>,
               \<lparr>id' = 3, distances' = [8, 15], flag = True, layer' = 0\<rparr>],
              [\<lparr>id' = 0, distances' = [10, 20], flag = True, layer' = 0\<rparr>,
               \<lparr>id' = 4, distances' = [20, 25], flag = True, layer' = 0\<rparr>])
   \<and> (\<exists>F R. findSkyline 2 scenario_points [] [] = Inr ([] @ F, [] @ R)
        \<and> (\<forall>p \<in> set scenario_points. p \<in> set F \<longleftrightarrow>
              \<not> (\<exists>q \<in> set scenario_points. q \<noteq> p \<and> dominates 2 (distances' q) (distances' p)))
        \<and> (\<forall>p \<in> set scenario_points. p \<in> set R \<longleftrightarrow> p \<notin> set F)
        \<and> set F \<union> set R = set scenario_points
        \<and> (\<forall>r \<in> set R. \<exists>f \<in> set F. dominates 2 (distances' f) (distances' r)))"
proof -
  have h1: "distinct (map id' scenario_points)"
    by (simp add: scenario_points_def)
  have h2: "\<forall>p \<in> set scenario_points. length (distances' p) = 2"
    by (simp add: scenario_points_def)
  have run: "findSkyline 2 scenario_points [] []
       = Inr ([\<lparr>id' = 1, distances' = [5, 30], flag = True, layer' = 0\<rparr>,
               \<lparr>id' = 2, distances' = [15, 10], flag = True, layer' = 0\<rparr>,
               \<lparr>id' = 3, distances' = [8, 15], flag = True, layer' = 0\<rparr>],
              [\<lparr>id' = 0, distances' = [10, 20], flag = True, layer' = 0\<rparr>,
               \<lparr>id' = 4, distances' = [20, 25], flag = True, layer' = 0\<rparr>])"
    by (simp add: findSkyline_def scenario_points_def upt_rec)
  from h2 have h2': "list_all (\<lambda>p. length (distances' p) = 2) scenario_points"
    by (simp add: list_all_iff)
  from h1 h2' run findSkyline_frontier_remainder [OF h1 h2, of "[]" "[]"]
  show ?thesis by (intro conjI)
qed

text \<open>
  C6.  When some input point has a distance vector whose length is not \<open>d\<close>,
  \<^verbatim>\<open>findSkyline\<close> throws \<^verbatim>\<open>std::invalid_argument\<close>, and at the throw both output
  vectors hold what they held at the call: nothing has been appended.
\<close>

theorem findSkyline_dimension_mismatch:
  assumes "p \<in> set points" and "length (distances' p) \<noteq> d"
  shows "findSkyline d points skyline remain_points = Inl (InvalidArgument, skyline, remain_points)"
proof -
  from assms(1) have "points \<noteq> []" by auto
  moreover from assms have "\<not> dims_ok d points"
    unfolding dims_ok_eq by blast
  ultimately show ?thesis
    by (simp add: findSkyline_def)
qed

text \<open>One point in two dimensions and one in three, in a container of dimension two.\<close>

theorem findSkyline_dimension_mismatch_witness:
  "findSkyline 2 [\<lparr>id' = 0, distances' = [10, 20 :: int], flag = True, layer' = 0\<rparr>,
                  \<lparr>id' = 1, distances' = [5, 30, 25], flag = True, layer' = 0\<rparr>]
     [\<lparr>id' = 7, distances' = [1, 1], flag = False, layer' = 3\<rparr>] []
   = Inl (InvalidArgument, [\<lparr>id' = 7, distances' = [1, 1], flag = False, layer' = 3\<rparr>], [])"
  by (rule findSkyline_dimension_mismatch
        [of "\<lparr>id' = 1, distances' = [5, 30, 25], flag = True, layer' = 0\<rparr>"]) simp_all

section \<open>Claims about the layered pools\<close>

text \<open>
  C4.  \<^verbatim>\<open>initNeighbor\<close> on an instance whose pool is empty, with input points of
  pairwise distinct ids and distance vectors of the length of the instance, returns
  normally, and in the pool it leaves no point of a higher layer dominates a point of a
  lower layer.  This holds for \<^verbatim>\<open>MultiVectorGPS\<close> and for \<^verbatim>\<open>MultiVectorDEG\<close>.
\<close>

theorem initNeighbor_layer_monotone:
  "(pool' s = [] \<and> distinct (map id' ps)
      \<and> (\<forall>p \<in> set ps. length (distances' p) = unat (num_dimensions' s))
    \<longrightarrow> (\<exists>s1. initNeighbor_gps s ps = Inr s1
          \<and> (\<forall>p \<in> set (pool' s1). \<forall>q \<in> set (pool' s1). layer' p < layer' q \<longrightarrow>
                \<not> dominates (unat (num_dimensions' s)) (distances' q) (distances' p))))
   \<and> (deg_pool' t = [] \<and> distinct (map id' qs)
      \<and> (\<forall>p \<in> set qs. length (distances' p) = unat (deg_num_dimensions' t))
    \<longrightarrow> (\<exists>t1. initNeighbor_deg t qs = Inr t1
          \<and> (\<forall>p \<in> set (deg_pool' t1). \<forall>q \<in> set (deg_pool' t1). layer' p < layer' q \<longrightarrow>
                \<not> dominates (unat (deg_num_dimensions' t)) (distances' q) (distances' p))))"
proof (intro conjI impI)
  assume a: "pool' s = [] \<and> distinct (map id' ps)
      \<and> (\<forall>p \<in> set ps. length (distances' p) = unat (num_dimensions' s))"
  then have "\<exists>pool1 outlier1 l1.
      initNeighbor_loop emplace_gps (unat (num_dimensions' s)) ps (pool' s) (outlier' s) 0
        = Inr (pool1, outlier1, l1)
      \<and> (\<forall>p \<in> set pool1. \<forall>q \<in> set pool1. layer' p < layer' q \<longrightarrow>
            \<not> dominates (unat (num_dimensions' s)) (distances' q) (distances' p))"
    by (intro initNeighbor_loop_layers [OF emplace_gps_copies]) simp_all
  then show "\<exists>s1. initNeighbor_gps s ps = Inr s1
          \<and> (\<forall>p \<in> set (pool' s1). \<forall>q \<in> set (pool' s1). layer' p < layer' q \<longrightarrow>
                \<not> dominates (unat (num_dimensions' s)) (distances' q) (distances' p))"
    unfolding initNeighbor_gps_Inr by (fastforce simp: set_std_sort)
next
  assume a: "deg_pool' t = [] \<and> distinct (map id' qs)
      \<and> (\<forall>p \<in> set qs. length (distances' p) = unat (deg_num_dimensions' t))"
  then have "\<exists>pool1 outlier1 l1.
      initNeighbor_loop (emplace_deg (deg_num_weight_combinations' t))
        (unat (deg_num_dimensions' t)) qs (deg_pool' t) (deg_outlier' t) 0
        = Inr (pool1, outlier1, l1)
      \<and> (\<forall>p \<in> set pool1. \<forall>q \<in> set pool1. layer' p < layer' q \<longrightarrow>
            \<not> dominates (unat (deg_num_dimensions' t)) (distances' q) (distances' p))"
    by (intro initNeighbor_loop_layers [OF emplace_deg_copies]) simp_all
  then show "\<exists>t1. initNeighbor_deg t qs = Inr t1
          \<and> (\<forall>p \<in> set (deg_pool' t1). \<forall>q \<in> set (deg_pool' t1). layer' p < layer' q \<longrightarrow>
                \<not> dominates (unat (deg_num_dimensions' t)) (distances' q) (distances' p))"
    unfolding initNeighbor_deg_Inr by (fastforce simp: set_std_sort)
qed

text \<open>
  The five points of the scenario in a fresh \<^verbatim>\<open>MultiVectorGPS\<close> and in a fresh
  \<^verbatim>\<open>MultiVectorDEG\<close>: three layers each.
\<close>

theorem initNeighbor_layer_monotone_witness:
  "initNeighbor_gps gps_empty scenario_points = Inr gps_layered
   \<and> list_all (\<lambda>p. list_all (\<lambda>q. layer' p < layer' q \<longrightarrow>
         \<not> dominates 2 (distances' q) (distances' p)) (pool' gps_layered)) (pool' gps_layered)
   \<and> initNeighbor_deg deg_empty deg_points = Inr deg_layered
   \<and> list_all (\<lambda>p. list_all (\<lambda>q. layer' p < layer' q \<longrightarrow>
         \<not> dominates 2 (distances' q) (distances' p)) (deg_pool' deg_layered)) (deg_pool' deg_layered)"
proof -
  have g: "initNeighbor_gps gps_empty scenario_points = Inr gps_layered"
    by (simp add: initNeighbor_gps_def gps_empty_def scenario_points_def gps_layered_def eval_simps)
  have d: "initNeighbor_deg deg_empty deg_points = Inr deg_layered"
    by (simp add: initNeighbor_deg_def deg_empty_def deg_points_def deg_layered_def eval_simps)
  have hg: "pool' gps_empty = [] \<and> distinct (map id' scenario_points)
      \<and> (\<forall>p \<in> set scenario_points. length (distances' p) = unat (num_dimensions' gps_empty))"
    by (simp add: gps_empty_def scenario_points_def)
  have hd: "deg_pool' deg_empty = [] \<and> distinct (map id' deg_points)
      \<and> (\<forall>p \<in> set deg_points. length (distances' p) = unat (deg_num_dimensions' deg_empty))"
    by (simp add: deg_empty_def deg_points_def MultiVectorDEGNeighbor_def)
  have dg: "unat (num_dimensions' gps_empty) = 2" and dd: "unat (deg_num_dimensions' deg_empty) = 2"
    by (simp_all add: gps_empty_def deg_empty_def)
  from initNeighbor_layer_monotone [of gps_empty scenario_points deg_empty deg_points] hg hd
  show ?thesis
    unfolding g d dg dd by (simp add: list_all_iff)
qed

text \<open>
  C7.  When the id is already in the pool or in the outlier vector, \<^verbatim>\<open>insert\<close>
  changes nothing: with a distance vector of the length of the instance it returns
  normally and leaves the state as it was.  (The length is checked first: with a vector
  of another length it throws, and the state is as it was, too.)  This holds for
  \<^verbatim>\<open>MultiVectorGPS\<close> and for \<^verbatim>\<open>MultiVectorDEG\<close>.
\<close>

theorem insert_duplicate_noop:
  "(ident \<in> id' ` set (pool' s) \<union> id' ` set (outlier' s) \<longrightarrow>
      insert_gps s ident v =
        (if length v = unat (num_dimensions' s) then Inr s else Inl (InvalidArgument, s)))
   \<and> (ident' \<in> id' ` set (deg_pool' t) \<union> id' ` set (deg_outlier' t) \<longrightarrow>
      insert_deg t ident' w =
        (if length w = unat (deg_num_dimensions' t) then Inr t else Inl (InvalidArgument, t)))"
  by (auto simp: insert_gps_def insert_deg_def id_loop_eq)

text \<open>
  Id 9 is inserted into the layered instance and then inserted again with another vector;
  id 0 is in the pool of the \<^verbatim>\<open>MultiVectorDEG\<close> instance.
\<close>

theorem insert_duplicate_noop_witness:
  "insert_gps gps_layered 9 [1, 1] = Inr gps_inserted
   \<and> insert_gps gps_inserted 9 [7, 7] = Inr gps_inserted
   \<and> insert_deg deg_layered 0 [5, 5] = Inr deg_layered"
proof -
  have first: "insert_gps gps_layered 9 [1, 1] = Inr gps_inserted"
    by (simp add: insert_gps_def gps_layered_def gps_inserted_def)
  have hg: "9 \<in> id' ` set (pool' gps_inserted) \<union> id' ` set (outlier' gps_inserted)"
    by (simp add: gps_inserted_def gps_layered_def)
  have hd: "0 \<in> id' ` set (deg_pool' deg_layered) \<union> id' ` set (deg_outlier' deg_layered)"
    by (simp add: deg_layered_def deg_empty_def MultiVectorDEGNeighbor_def)
  have lg: "length [7, 7 :: int] = unat (num_dimensions' gps_inserted)"
    and ld: "length [5, 5 :: int] = unat (deg_num_dimensions' deg_layered)"
    by (simp_all add: gps_inserted_def gps_layered_def deg_layered_def deg_empty_def)
  note noop = insert_duplicate_noop [of 9 gps_inserted "[7, 7]" 0 deg_layered "[5, 5]"]
  from noop hg have "insert_gps gps_inserted 9 [7, 7] =
      (if length [7, 7 :: int] = unat (num_dimensions' gps_inserted)
       then Inr gps_inserted else Inl (InvalidArgument, gps_inserted))"
    by blast
  with lg have second: "insert_gps gps_inserted 9 [7, 7] = Inr gps_inserted"
    by simp
  from noop hd have "insert_deg deg_layered 0 [5, 5] =
      (if length [5, 5 :: int] = unat (deg_num_dimensions' deg_layered)
       then Inr deg_layered else Inl (InvalidArgument, deg_layered))"
    by blast
  with ld have "insert_deg deg_layered 0 [5, 5] = Inr deg_layered"
    by simp
  with first second show ?thesis by blast
qed

text \<open>
  C10.  When \<^verbatim>\<open>initNeighbor\<close> returns from a non-empty input, the outlier vector is
  not empty: it is the last frontier of the layered peeling of the input.  Each of its
  points is in the pool too (same id, same distances), and \<^verbatim>\<open>insert\<close> of the id of
  any of them changes nothing.  When the pool was empty at the call, the points of the
  outlier vector are exactly the points of the highest layer of the pool.  This holds for
  \<^verbatim>\<open>MultiVectorGPS\<close> and for \<^verbatim>\<open>MultiVectorDEG\<close>.
\<close>

theorem initNeighbor_outlier_last_layer:
  "(ps \<noteq> [] \<and> initNeighbor_gps s ps = Inr s1 \<longrightarrow>
      outlier' s1 \<noteq> [] \<and> outlier' s1 = last (peel (unat (num_dimensions' s)) ps)
      \<and> key ` set (outlier' s1) \<subseteq> key ` set (pool' s1)
      \<and> (\<forall>x \<in> set (outlier' s1). \<forall>v. length v = unat (num_dimensions' s1) \<longrightarrow>
            insert_gps s1 (id' x) v = Inr s1)
      \<and> (pool' s = [] \<longrightarrow> key ` set (outlier' s1)
            = key ` {p \<in> set (pool' s1). \<forall>q \<in> set (pool' s1). layer' q \<le> layer' p}))
   \<and> (qs \<noteq> [] \<and> initNeighbor_deg t qs = Inr t1 \<longrightarrow>
      deg_outlier' t1 \<noteq> [] \<and> deg_outlier' t1 = last (peel (unat (deg_num_dimensions' t)) qs)
      \<and> key ` set (deg_outlier' t1) \<subseteq> key ` set (deg_pool' t1)
      \<and> (\<forall>x \<in> set (deg_outlier' t1). \<forall>v. length v = unat (deg_num_dimensions' t1) \<longrightarrow>
            insert_deg t1 (id' x) v = Inr t1)
      \<and> (deg_pool' t = [] \<longrightarrow> key ` set (deg_outlier' t1)
            = key ` {p \<in> set (deg_pool' t1). \<forall>q \<in> set (deg_pool' t1). layer' q \<le> layer' p}))"
proof -
  have gps: "outlier' s1 \<noteq> [] \<and> outlier' s1 = last (peel (unat (num_dimensions' s)) ps)
      \<and> key ` set (outlier' s1) \<subseteq> key ` set (pool' s1)
      \<and> (\<forall>x \<in> set (outlier' s1). \<forall>v. length v = unat (num_dimensions' s1) \<longrightarrow>
            insert_gps s1 (id' x) v = Inr s1)
      \<and> (pool' s = [] \<longrightarrow> key ` set (outlier' s1)
            = key ` {p \<in> set (pool' s1). \<forall>q \<in> set (pool' s1). layer' q \<le> layer' p})"
    if "ps \<noteq> []" and "initNeighbor_gps s ps = Inr s1"
  proof -
    from that(2) obtain pool1 outlier1 l1 where
      run: "initNeighbor_loop emplace_gps (unat (num_dimensions' s)) ps (pool' s) (outlier' s) 0
              = Inr (pool1, outlier1, l1)"
      and s1: "set (pool' s1) = set pool1" "outlier' s1 = outlier1"
      unfolding initNeighbor_gps_Inr by (auto simp: set_std_sort)
    note loop = initNeighbor_loop_outlier [OF emplace_gps_copies run that(1)]
    note frontier = initNeighbor_loop_last_frontier [OF run that(1)]
    from loop have ne: "outlier1 \<noteq> []" and sub: "key ` set outlier1 \<subseteq> key ` set pool1"
      by blast+
    have ins: "insert_gps s1 (id' x) v = Inr s1"
      if "x \<in> set (outlier' s1)" "length v = unat (num_dimensions' s1)" for x v
      using key_subset_ids [OF _ sub, of x] that s1 by (simp add: insert_gps_def id_loop_eq)
    have top: "key ` set outlier1
        = key ` {p \<in> set pool1. \<forall>q \<in> set pool1. layer' q \<le> layer' p}" if "pool' s = []"
      using loop that by (intro highest_layer [OF ne]) auto
    show ?thesis
    proof (intro conjI ballI allI impI)
      show "outlier' s1 \<noteq> []"
        using ne s1 by simp
      show "outlier' s1 = last (peel (unat (num_dimensions' s)) ps)"
        using frontier s1 by simp
      show "key ` set (outlier' s1) \<subseteq> key ` set (pool' s1)"
        using sub s1 by simp
      show "insert_gps s1 (id' x) v = Inr s1"
        if "x \<in> set (outlier' s1)" "length v = unat (num_dimensions' s1)" for x v
        using that by (rule ins)
      show "key ` set (outlier' s1)
          = key ` {p \<in> set (pool' s1). \<forall>q \<in> set (pool' s1). layer' q \<le> layer' p}"
        if "pool' s = []"
        using top [OF that] s1 by simp
    qed
  qed
  have deg: "deg_outlier' t1 \<noteq> [] \<and> deg_outlier' t1 = last (peel (unat (deg_num_dimensions' t)) qs)
      \<and> key ` set (deg_outlier' t1) \<subseteq> key ` set (deg_pool' t1)
      \<and> (\<forall>x \<in> set (deg_outlier' t1). \<forall>v. length v = unat (deg_num_dimensions' t1) \<longrightarrow>
            insert_deg t1 (id' x) v = Inr t1)
      \<and> (deg_pool' t = [] \<longrightarrow> key ` set (deg_outlier' t1)
            = key ` {p \<in> set (deg_pool' t1). \<forall>q \<in> set (deg_pool' t1). layer' q \<le> layer' p})"
    if "qs \<noteq> []" and "initNeighbor_deg t qs = Inr t1"
  proof -
    from that(2) obtain pool1 outlier1 l1 where
      run: "initNeighbor_loop (emplace_deg (deg_num_weight_combinations' t))
              (unat (deg_num_dimensions' t)) qs (deg_pool' t) (deg_outlier' t) 0
              = Inr (pool1, outlier1, l1)"
      and t1: "set (deg_pool' t1) = set pool1" "deg_outlier' t1 = outlier1"
      unfolding initNeighbor_deg_Inr by (auto simp: set_std_sort)
    note loop = initNeighbor_loop_outlier [OF emplace_deg_copies run that(1)]
    note frontier = initNeighbor_loop_last_frontier [OF run that(1)]
    from loop have ne: "outlier1 \<noteq> []" and sub: "key ` set outlier1 \<subseteq> key ` set pool1"
      by blast+
    have ins: "insert_deg t1 (id' x) v = Inr t1"
      if "x \<in> set (deg_outlier' t1)" "length v = unat (deg_num_dimensions' t1)" for x v
      using key_subset_ids [OF _ sub, of x] that t1 by (simp add: insert_deg_def id_loop_eq)
    have top: "key ` set outlier1
        = key ` {p \<in> set pool1. \<forall>q \<in> set pool1. layer' q \<le> layer' p}" if "deg_pool' t = []"
      using loop that by (intro highest_layer [OF ne]) auto
    show ?thesis
    proof (intro conjI ballI allI impI)
      show "deg_outlier' t1 \<noteq> []"
        using ne t1 by simp
      show "deg_outlier' t1 = last (peel (unat (deg_num_dimensions' t)) qs)"
        using frontier t1 by simp
      show "key ` set (deg_outlier' t1) \<subseteq> key ` set (deg_pool' t1)"
        using sub t1 by simp
      show "insert_deg t1 (id' x) v = Inr t1"
        if "x \<in> set (deg_outlier' t1)" "length v = unat (deg_num_dimensions' t1)" for x v
        using that by (rule ins)
      show "key ` set (deg_outlier' t1)
          = key ` {p \<in> set (deg_pool' t1). \<forall>q \<in> set (deg_pool' t1). layer' q \<le> layer' p}"
        if "deg_pool' t = []"
        using top [OF that] t1 by simp
    qed
  qed
  show ?thesis
  proof (rule conjI; rule impI)
    assume "ps \<noteq> [] \<and> initNeighbor_gps s ps = Inr s1"
    then show "outlier' s1 \<noteq> [] \<and> outlier' s1 = last (peel (unat (num_dimensions' s)) ps)
      \<and> key ` set (outlier' s1) \<subseteq> key ` set (pool' s1)
      \<and> (\<forall>x \<in> set (outlier' s1). \<forall>v. length v = unat (num_dimensions' s1) \<longrightarrow>
            insert_gps s1 (id' x) v = Inr s1)
      \<and> (pool' s = [] \<longrightarrow> key ` set (outlier' s1)
            = key ` {p \<in> set (pool' s1). \<forall>q \<in> set (pool' s1). layer' q \<le> layer' p})"
      using gps by (elim conjE)
  next
    assume "qs \<noteq> [] \<and> initNeighbor_deg t qs = Inr t1"
    then show "deg_outlier' t1 \<noteq> [] \<and> deg_outlier' t1 = last (peel (unat (deg_num_dimensions' t)) qs)
      \<and> key ` set (deg_outlier' t1) \<subseteq> key ` set (deg_pool' t1)
      \<and> (\<forall>x \<in> set (deg_outlier' t1). \<forall>v. length v = unat (deg_num_dimensions' t1) \<longrightarrow>
            insert_deg t1 (id' x) v = Inr t1)
      \<and> (deg_pool' t = [] \<longrightarrow> key ` set (deg_outlier' t1)
            = key ` {p \<in> set (deg_pool' t1). \<forall>q \<in> set (deg_pool' t1). layer' q \<le> layer' p})"
      using deg by (elim conjE)
  qed
qed

text \<open>
  After \<^verbatim>\<open>initNeighbor\<close> on the scenario the outlier vector holds the point with id 4,
  which is the third layer of the pool, and \<^verbatim>\<open>insert(4, {0, 0})\<close> changes nothing.
  The same holds in the \<^verbatim>\<open>MultiVectorDEG\<close> instance.
\<close>

theorem initNeighbor_outlier_last_layer_witness:
  "scenario_points \<noteq> [] \<and> initNeighbor_gps gps_empty scenario_points = Inr gps_layered
   \<and> outlier' gps_layered = [\<lparr>id' = 4, distances' = [20, 25], flag = True, layer' = 0\<rparr>]
   \<and> insert_gps gps_layered 4 [0, 0] = Inr gps_layered
   \<and> key ` set (outlier' gps_layered)
       = key ` {p \<in> set (pool' gps_layered). \<forall>q \<in> set (pool' gps_layered). layer' q \<le> layer' p}
   \<and> deg_points \<noteq> [] \<and> initNeighbor_deg deg_empty deg_points = Inr deg_layered
   \<and> deg_outlier' deg_layered = [MultiVectorDEGNeighbor 4 [20, 25] 11 True 0]
   \<and> insert_deg deg_layered 4 [0, 0] = Inr deg_layered
   \<and> key ` set (deg_outlier' deg_layered)
       = key ` {p \<in> set (deg_pool' deg_layered). \<forall>q \<in> set (deg_pool' deg_layered). layer' q \<le> layer' p}"
proof -
  have g: "scenario_points \<noteq> [] \<and> initNeighbor_gps gps_empty scenario_points = Inr gps_layered"
    by (simp add: initNeighbor_gps_def gps_empty_def scenario_points_def gps_layered_def eval_simps)
  have d: "deg_points \<noteq> [] \<and> initNeighbor_deg deg_empty deg_points = Inr deg_layered"
    by (simp add: initNeighbor_deg_def deg_empty_def deg_points_def deg_layered_def eval_simps)
  note inst = initNeighbor_outlier_last_layer [where ps = scenario_points and s = gps_empty
      and ?s1.0 = gps_layered and qs = deg_points and t = deg_empty and ?t1.0 = deg_layered]
  note G = inst [THEN conjunct1, rule_format, OF g]
  note D = inst [THEN conjunct2, rule_format, OF d]
  have og: "outlier' gps_layered = [\<lparr>id' = 4, distances' = [20, 25], flag = True, layer' = 0\<rparr>]"
    and lg: "length [0, 0 :: int] = unat (num_dimensions' gps_layered)"
    and eg: "pool' gps_empty = []"
    by (simp_all add: gps_layered_def gps_empty_def)
  have od: "deg_outlier' deg_layered = [MultiVectorDEGNeighbor 4 [20, 25] 11 True 0]"
    and ld: "length [0, 0 :: int] = unat (deg_num_dimensions' deg_layered)"
    and ed: "deg_pool' deg_empty = []"
    by (simp_all add: deg_layered_def deg_empty_def)
  have xg: "\<lparr>id' = 4, distances' = [20, 25 :: int], flag = True, layer' = 0\<rparr>
      \<in> set (outlier' gps_layered)"
    unfolding og by simp
  have xd: "MultiVectorDEGNeighbor 4 [20, 25 :: int] 11 True 0 \<in> set (deg_outlier' deg_layered)"
    unfolding od by simp
  from G [THEN conjunct2, THEN conjunct2, THEN conjunct2, THEN conjunct1, rule_format, OF xg lg]
  have ig: "insert_gps gps_layered 4 [0, 0] = Inr gps_layered"
    by simp
  from D [THEN conjunct2, THEN conjunct2, THEN conjunct2, THEN conjunct1, rule_format, OF xd ld]
  have id: "insert_deg deg_layered 4 [0, 0] = Inr deg_layered"
    by (simp add: MultiVectorDEGNeighbor_def)
  note tg = G [THEN conjunct2, THEN conjunct2, THEN conjunct2, THEN conjunct2, rule_format, OF eg]
  note td = D [THEN conjunct2, THEN conjunct2, THEN conjunct2, THEN conjunct2, rule_format, OF ed]
  show ?thesis
    by (intro conjI g [THEN conjunct1] g [THEN conjunct2] og ig tg
        d [THEN conjunct1] d [THEN conjunct2] od id td)
qed

text \<open>
  C2 as stated fails: with capacity 1, \<^verbatim>\<open>updateNeighbor\<close> on the five points of the
  scenario leaves the three points of the first frontier in the pool.
\<close>

theorem updateNeighbor_capacity_counterexample:
  "updateNeighbor_gps gps_small = Inr gps_small_updated
   \<and> unat (M' gps_small_updated) < length (pool' gps_small_updated)"
  by (simp add: updateNeighbor_gps_def gps_small_def gps_layered_def gps_small_updated_def
      eval_simps)

text \<open>
  C2, amended.  When \<^verbatim>\<open>updateNeighbor\<close> returns, the pool holds no more points than
  before; if it holds fewer than \<open>M\<close>, it holds as many as before; and either it is
  empty or it held fewer than \<open>M\<close> points before the last frontier was appended, which is
  the frontier left in the outlier vector: its size is below \<open>M\<close> plus the size of the
  outlier vector.  This holds for \<^verbatim>\<open>MultiVectorGPS\<close> and for \<^verbatim>\<open>MultiVectorDEG\<close>.
\<close>

theorem updateNeighbor_soft_capacity:
  "(updateNeighbor_gps s = Inr s1 \<longrightarrow>
      length (pool' s1) \<le> length (pool' s)
      \<and> (length (pool' s1) < unat (M' s) \<longrightarrow> length (pool' s1) = length (pool' s))
      \<and> (pool' s1 = [] \<or> length (pool' s1) < unat (M' s) + length (outlier' s1)))
   \<and> (updateNeighbor_deg t = Inr t1 \<longrightarrow>
      length (deg_pool' t1) \<le> length (deg_pool' t)
      \<and> (length (deg_pool' t1) < unat (deg_M' t) \<longrightarrow> length (deg_pool' t1) = length (deg_pool' t))
      \<and> (deg_pool' t1 = [] \<or> length (deg_pool' t1) < unat (deg_M' t) + length (deg_outlier' t1)))"
proof (rule conjI; rule impI)
  assume "updateNeighbor_gps s = Inr s1"
  then obtain pool1 outlier1 l1 where
    run: "updateNeighbor_loop emplace_gps (unat (num_dimensions' s)) (unat (M' s))
            (std_sort (pool' s)) [] (outlier' s) 0 = Inr (pool1, outlier1, l1)"
    and s1: "pool' s1 = pool1" "outlier' s1 = outlier1"
    unfolding updateNeighbor_gps_Inr by auto
  from updateNeighbor_loop_length [OF run] show "length (pool' s1) \<le> length (pool' s)
      \<and> (length (pool' s1) < unat (M' s) \<longrightarrow> length (pool' s1) = length (pool' s))
      \<and> (pool' s1 = [] \<or> length (pool' s1) < unat (M' s) + length (outlier' s1))"
    unfolding s1 by (auto simp: length_std_sort)
next
  assume "updateNeighbor_deg t = Inr t1"
  then obtain pool1 outlier1 l1 where
    run: "updateNeighbor_loop (emplace_deg (deg_num_weight_combinations' t))
            (unat (deg_num_dimensions' t)) (unat (deg_M' t))
            (std_sort (deg_pool' t)) [] (deg_outlier' t) 0 = Inr (pool1, outlier1, l1)"
    and t1: "deg_pool' t1 = pool1" "deg_outlier' t1 = outlier1"
    unfolding updateNeighbor_deg_Inr by auto
  from updateNeighbor_loop_length [OF run] show "length (deg_pool' t1) \<le> length (deg_pool' t)
      \<and> (length (deg_pool' t1) < unat (deg_M' t) \<longrightarrow> length (deg_pool' t1) = length (deg_pool' t))
      \<and> (deg_pool' t1 = [] \<or> length (deg_pool' t1) < unat (deg_M' t) + length (deg_outlier' t1))"
    unfolding t1 by (auto simp: length_std_sort)
qed

theorem updateNeighbor_soft_capacity_witness:
  "updateNeighbor_gps gps_small = Inr gps_small_updated
   \<and> length (pool' gps_small_updated) \<le> length (pool' gps_small)
   \<and> length (pool' gps_small_updated) < unat (M' gps_small) + length (outlier' gps_small_updated)
   \<and> updateNeighbor_deg deg_small = Inr deg_small_updated
   \<and> length (deg_pool' deg_small_updated) \<le> length (deg_pool' deg_small)
   \<and> length (deg_pool' deg_small_updated)
       < unat (deg_M' deg_small) + length (deg_outlier' deg_small_updated)"
proof -
  have g: "updateNeighbor_gps gps_small = Inr gps_small_updated"
    by (simp add: updateNeighbor_gps_def gps_small_def gps_layered_def gps_small_updated_def
        eval_simps)
  have d: "updateNeighbor_deg deg_small = Inr deg_small_updated"
    by (simp add: updateNeighbor_deg_def deg_small_def deg_layered_def deg_empty_def
        deg_small_updated_def eval_simps)
  have "pool' gps_small_updated \<noteq> []" and "deg_pool' deg_small_updated \<noteq> []"
    by (simp_all add: gps_small_updated_def deg_small_updated_def)
  with updateNeighbor_soft_capacity [of gps_small gps_small_updated deg_small deg_small_updated]
    g d show ?thesis by simp
qed

text \<open>
  C1 fails on the code.  \<^verbatim>\<open>insert(9, {1, 1})\<close> on the instance that holds the
  scenario appends the point to the outlier vector; the \<^verbatim>\<open>updateNeighbor\<close> that
  follows re-layers the five points of the pool and overwrites the outlier vector with
  the last frontier: the id 9 is then neither in the pool nor in the outlier vector.
\<close>

theorem insert_then_update_drops_point:
  "insert_gps gps_layered 9 [1, 1] = Inr gps_inserted
   \<and> updateNeighbor_gps gps_inserted = Inr gps_inserted_updated
   \<and> \<not> id_loop 9 (pool' gps_inserted_updated)
   \<and> \<not> id_loop 9 (outlier' gps_inserted_updated)"
  by (simp add: insert_gps_def updateNeighbor_gps_def gps_layered_def gps_inserted_def
      gps_inserted_updated_def eval_simps)



section \<open>Claims about the pruning bitmap\<close>

text \<open>
  C9.  Let \<open>p\<close> be a neighbour built by the constructor with \<open>K\<close> weight combinations
  (\<open>K\<close> a \<^verbatim>\<open>size_t\<close> for which \<^verbatim>\<open>K + 63\<close> does not wrap) and changed by any sequence
  of calls of \<^verbatim>\<open>setPruned\<close>, and let \<open>i < K\<close>.  Then \<^verbatim>\<open>setPruned(i, true)\<close> returns
  normally and \<^verbatim>\<open>isPruned(i)\<close> is true afterwards, \<^verbatim>\<open>setPruned(i, false)\<close> returns
  normally and \<^verbatim>\<open>isPruned(i)\<close> is false afterwards, and after either call
  \<^verbatim>\<open>isPruned(j)\<close> is what it was before for every other \<open>j < K\<close>.
\<close>

theorem setPruned_isPruned_roundtrip:
  assumes "K + 63 < 2 ^ 64"
    and "p = setPruned_calls (MultiVectorDEGNeighbor ident ds K f l) calls"
    and "i < K"
  shows "\<exists>p1 p0. setPruned p i True = Inr p1 \<and> isPruned p1 i = Inr True
    \<and> setPruned p i False = Inr p0 \<and> isPruned p0 i = Inr False
    \<and> (\<forall>j. j < K \<and> j \<noteq> i \<longrightarrow> isPruned p1 j = isPruned p j \<and> isPruned p0 j = isPruned p j)"
proof -
  have fits: "bitmap_fits K p"
    unfolding assms(2) by (intro bitmap_fits_calls bitmap_fits_constructor assms(1))
  obtain p1 where p1: "setPruned p i True = Inr p1"
    using setPruned_eq [OF fits assms(3)] by blast
  obtain p0 where p0: "setPruned p i False = Inr p0"
    using setPruned_eq [OF fits assms(3)] by blast
  note r1 = setPruned_roundtrip [OF fits assms(3) p1]
  note r0 = setPruned_roundtrip [OF fits assms(3) p0]
  from r1(2) r0(2)
  have "\<forall>j. j < K \<and> j \<noteq> i \<longrightarrow> isPruned p1 j = isPruned p j \<and> isPruned p0 j = isPruned p j"
    by blast
  with p1 p0 r1(1) r0(1) show ?thesis
    by blast
qed

text \<open>
  Three dimensions have 66 weight combinations, so the bitmap has two words.  Bits 5 and
  64 are set first; then bit 65 is set or cleared.
\<close>

theorem setPruned_isPruned_roundtrip_witness:
  "(66 :: nat) + 63 < 2 ^ 64 \<and> (65 :: nat) < 66
   \<and> pruning_bitmap' (setPruned_calls (MultiVectorDEGNeighbor 1 [10, 20, 30 :: int] 66 True 0)
        [(5, True), (64, True)]) = [32, 1]
   \<and> (\<exists>p1 p0.
        setPruned (setPruned_calls (MultiVectorDEGNeighbor 1 [10, 20, 30 :: int] 66 True 0)
          [(5, True), (64, True)]) 65 True = Inr p1
        \<and> isPruned p1 65 = Inr True
        \<and> setPruned (setPruned_calls (MultiVectorDEGNeighbor 1 [10, 20, 30 :: int] 66 True 0)
          [(5, True), (64, True)]) 65 False = Inr p0
        \<and> isPruned p0 65 = Inr False
        \<and> (\<forall>j. j < 66 \<and> j \<noteq> 65 \<longrightarrow>
              isPruned p1 j = isPruned (setPruned_calls
                (MultiVectorDEGNeighbor 1 [10, 20, 30 :: int] 66 True 0) [(5, True), (64, True)]) j
              \<and> isPruned p0 j = isPruned (setPruned_calls
                (MultiVectorDEGNeighbor 1 [10, 20, 30 :: int] 66 True 0) [(5, True), (64, True)]) j))"
proof -
  have h1: "(66 :: nat) + 63 < 2 ^ 64" and h3: "(65 :: nat) < 66"
    by simp_all
  have two: "replicate 2 x = [x, x]" for x :: "64 word"
    by (simp add: numeral_2_eq_2)
  have bits: "pruning_bitmap' (setPruned_calls
      (MultiVectorDEGNeighbor 1 [10, 20, 30 :: int] 66 True 0) [(5, True), (64, True)]) = [32, 1]"
    by (simp add: MultiVectorDEGNeighbor_def setPruned_def two)
  from h1 h3 bits setPruned_isPruned_roundtrip [OF h1 refl h3]
  show ?thesis by (intro conjI)
qed

section \<open>Claims about the weight lattice\<close>

text \<open>
  C8.  \<^verbatim>\<open>generateWeightCombinations(0)\<close> returns the empty vector and
  \<^verbatim>\<open>generateWeightCombinations(1)\<close> the single combination \<^verbatim>\<open>{1.0f}\<close>.  For every
  \<open>d\<close> from 1 to 8 the call returns, and it returns pairwise different combinations, each
  of \<open>d\<close> weights, whose number is the binomial coefficient of \<open>10 + d - 1\<close> over
  \<open>d - 1\<close>: 11 for two dimensions, 66 for three and 286 for four.
\<close>

theorem generateWeightCombinations_count:
  "generateWeightCombinations 0 = Some []
   \<and> generateWeightCombinations 1 = Some [ [1] ]
   \<and> (1 \<le> d \<and> d \<le> 8 \<longrightarrow>
        (\<exists>ws. generateWeightCombinations d = Some ws \<and> distinct ws
           \<and> (\<forall>w \<in> set ws. length w = d)
           \<and> length ws = (10 + d - 1) choose (d - 1)))
   \<and> (\<exists>ws. generateWeightCombinations 2 = Some ws \<and> length ws = 11)
   \<and> (\<exists>ws. generateWeightCombinations 3 = Some ws \<and> length ws = 66)
   \<and> (\<exists>ws. generateWeightCombinations 4 = Some ws \<and> length ws = 286)"
proof -
  have general: "\<exists>ws. generateWeightCombinations d = Some ws \<and> distinct ws
      \<and> (\<forall>w \<in> set ws. length w = d)
      \<and> length ws = (10 + d - 1) choose (d - 1)" if "1 \<le> d" "d \<le> 8" for d
  proof (cases "d = 1")
    case True
    then show ?thesis
      by (simp add: generateWeightCombinations_def)
  next
    case False
    with that have "2 \<le> d" by simp
    from generateWeightCombinations_length [OF this that(2)] show ?thesis
      by fastforce
  qed
  have "(11 :: nat) choose 1 = 11" "(12 :: nat) choose 2 = 66" "(13 :: nat) choose 3 = 286"
    by (simp_all add: eval_nat_numeral binomial_Suc_Suc)
  with general [of 2] general [of 3] general [of 4]
  have "\<exists>ws. generateWeightCombinations 2 = Some ws \<and> length ws = 11"
    and "\<exists>ws. generateWeightCombinations 3 = Some ws \<and> length ws = 66"
    and "\<exists>ws. generateWeightCombinations 4 = Some ws \<and> length ws = 286"
    by auto
  moreover have "generateWeightCombinations 0 = Some []"
    and "generateWeightCombinations 1 = Some [ [1] ]"
    by (simp_all add: generateWeightCombinations_def)
  ultimately show ?thesis
    using general by blast
qed

text \<open>Five dimensions: 1001 combinations.\<close>

theorem generateWeightCombinations_count_witness:
  "(1 :: nat) \<le> 5 \<and> (5 :: nat) \<le> 8
   \<and> (\<exists>ws. generateWeightCombinations 5 = Some ws \<and> distinct ws
        \<and> (\<forall>w \<in> set ws. length w = 5) \<and> length ws = 1001)"
proof -
  have h: "(1 :: nat) \<le> 5 \<and> (5 :: nat) \<le> 8" by simp
  have "(10 + 5 - 1 :: nat) choose (5 - 1) = 1001"
    by (simp add: eval_nat_numeral binomial_Suc_Suc)
  with generateWeightCombinations_count [of 5] h show ?thesis
    by simp
qed

end
